theory Spec2Isabelle
  imports Complex_Main
begin

section \<open>Data shared by the server and the client\<close>

text \<open>
  The constants of \<^verbatim>\<open>game-server.js\<close> and \<^verbatim>\<open>game-client.js\<close>. JavaScript numbers are
  modelled as reals where they are finite (positions, speeds), as integers where the
  source produces integers (\<^verbatim>\<open>Date.now()\<close>, scores). The arithmetic of the server is
  that of the reals; in the client's interpolation every operation is rounded to double
  precision.
\<close>

definition MAP_SIZE :: real where "MAP_SIZE = 800"
definition PLAYER_SIZE :: real where "PLAYER_SIZE = 30"
definition COIN_SIZE :: real where "COIN_SIZE = 20"
definition PLAYER_SPEED :: real where "PLAYER_SPEED = 3"
definition INTERPOLATION_DELAY :: int where "INTERPOLATION_DELAY = 100"

text \<open>The object \<^verbatim>\<open>serializePlayer\<close> builds: \<^verbatim>\<open>{id, x, y, score, color}\<close>.\<close>

record player_view =
  v_id :: nat
  v_x :: real
  v_y :: real
  v_score :: int
  v_color :: string

text \<open>A coin as \<^verbatim>\<open>spawnCoin\<close> builds it: \<^verbatim>\<open>{id, x, y}\<close>.\<close>

record coin =
  c_id :: int
  c_x :: real
  c_y :: real

section \<open>The client: snapshot buffer\<close>

text \<open>An entry of \<^verbatim>\<open>serverStates\<close>: \<^verbatim>\<open>{timestamp, players, coins}\<close>.\<close>

record snapshot =
  timestamp :: int
  snap_players :: "player_view list"
  snap_coins :: "coin list"

text \<open>
  The messages the client receives, after \<^verbatim>\<open>JSON.parse\<close>: the two types the client
  handles, and any other value of \<^verbatim>\<open>type\<close>.
\<close>

datatype message =
  Init nat player_view
| State int "player_view list" "coin list"
| Other

record GameClient =
  myPlayerId :: "nat option"
  serverStates :: "snapshot list"

text \<open>
  \<^verbatim>\<open>GameClient.handleMessage\<close>. The first argument is the value \<^verbatim>\<open>Date.now()\<close> returns
  when the cutoff is computed. A state message is pushed at the end of the buffer, then
  the buffer is filtered with \<^verbatim>\<open>s.timestamp > cutoff\<close>.
\<close>

definition GameClient_handleMessage :: "int \<Rightarrow> message \<Rightarrow> GameClient \<Rightarrow> GameClient" where
  "GameClient_handleMessage now m c =
     (case m of
        Init playerId _ \<Rightarrow> c\<lparr>myPlayerId := Some playerId\<rparr>
      | State ts ps cs \<Rightarrow>
          (let pushed = serverStates c @ [\<lparr>timestamp = ts, snap_players = ps, snap_coins = cs\<rparr>];
               cutoff = now - 1000
           in c\<lparr>serverStates := filter (\<lambda>s. timestamp s > cutoff) pushed\<rparr>)
      | Other \<Rightarrow> c)"

section \<open>The client: interpolation\<close>

text \<open>
  The result of a JavaScript arithmetic operation: a finite number, \<^verbatim>\<open>NaN\<close> or an
  infinity. The numbers a message carries are finite (JSON has no other), so the
  coordinates of a buffered snapshot are reals; only what \<^verbatim>\<open>interpolateState\<close> computes
  can be \<^verbatim>\<open>NaN\<close> or infinite.
\<close>

datatype jsnum = Num real | NaN | PosInf | NegInf

text \<open>
  JavaScript numbers are IEEE 754 double-precision numbers, and each arithmetic
  operation returns its exact result rounded to the nearest double, a tie going to the
  double with the even significand. \<open>round_even\<close> rounds a real to the nearest
  integer, a tie to the even one. \<open>exponent x\<close> is the binary exponent of a non-zero
  \<open>x\<close>, and \<open>quantum x\<close> the distance between neighbouring doubles at that exponent:
  \<open>2 powi (e - 52)\<close> for a normal number, \<open>2 powi (- 1074)\<close> in the subnormal range.
  \<open>fl x\<close> is the multiple of the quantum nearest to \<open>x\<close>. The sign of a zero is not
  modelled.
\<close>

definition round_even :: "real \<Rightarrow> int" where
  "round_even y =
     (let f = \<lfloor>y\<rfloor>; d = y - of_int f in
      if d < 1 / 2 then f
      else if 1 / 2 < d then f + 1
      else if even f then f else f + 1)"

definition exponent :: "real \<Rightarrow> int" where
  "exponent x = \<lfloor>log 2 \<bar>x\<bar>\<rfloor>"

definition quantum :: "real \<Rightarrow> real" where
  "quantum x = 2 powi (max (exponent x - 52) (- 1074))"

definition fl :: "real \<Rightarrow> real" where
  "fl x = (if x = 0 then 0 else of_int (round_even (x / quantum x)) * quantum x)"

text \<open>
  The double an operation returns for the exact result \<open>x\<close>: the rounded value, or an
  infinity when the rounded value reaches \<open>2 powi 1024\<close> in magnitude.
\<close>

definition overflow :: real where
  "overflow = 2 powi 1024"

definition js_num :: "real \<Rightarrow> jsnum" where
  "js_num x =
     (if overflow \<le> fl x then PosInf
      else if fl x \<le> - overflow then NegInf
      else Num (fl x))"

text \<open>
  \<^verbatim>\<open>a - b\<close> and \<^verbatim>\<open>a / b\<close> on finite numbers. Division by zero gives \<^verbatim>\<open>NaN\<close> for
  \<^verbatim>\<open>0 / 0\<close> and an infinity otherwise.
\<close>

definition js_sub :: "real \<Rightarrow> real \<Rightarrow> jsnum" where
  "js_sub a b = js_num (a - b)"

definition js_div :: "real \<Rightarrow> real \<Rightarrow> jsnum" where
  "js_div a b =
     (if b \<noteq> 0 then js_num (a / b)
      else if a = 0 then NaN
      else if 0 < a then PosInf else NegInf)"

text \<open>
  \<^verbatim>\<open>a * b\<close> on two results and \<^verbatim>\<open>a + b\<close> for a finite \<open>a\<close>: \<^verbatim>\<open>NaN\<close> stays \<^verbatim>\<open>NaN\<close>,
  zero times an infinity is \<^verbatim>\<open>NaN\<close>, and a finite result is rounded.
\<close>

fun js_mul :: "jsnum \<Rightarrow> jsnum \<Rightarrow> jsnum" where
  "js_mul (Num a) (Num b) = js_num (a * b)"
| "js_mul NaN _ = NaN"
| "js_mul _ NaN = NaN"
| "js_mul (Num a) PosInf = (if a = 0 then NaN else if 0 < a then PosInf else NegInf)"
| "js_mul (Num a) NegInf = (if a = 0 then NaN else if 0 < a then NegInf else PosInf)"
| "js_mul PosInf (Num b) = (if b = 0 then NaN else if 0 < b then PosInf else NegInf)"
| "js_mul NegInf (Num b) = (if b = 0 then NaN else if 0 < b then NegInf else PosInf)"
| "js_mul PosInf PosInf = PosInf"
| "js_mul PosInf NegInf = NegInf"
| "js_mul NegInf PosInf = NegInf"
| "js_mul NegInf NegInf = PosInf"

fun js_add :: "real \<Rightarrow> jsnum \<Rightarrow> jsnum" where
  "js_add a (Num b) = js_num (a + b)"
| "js_add a NaN = NaN"
| "js_add a PosInf = PosInf"
| "js_add a NegInf = NegInf"

text \<open>
  What \<^verbatim>\<open>interpolateState\<close> returns: the players with the coordinates it computed, and
  the coins.
\<close>

record render_player =
  r_id :: nat
  r_x :: jsnum
  r_y :: jsnum
  r_score :: int
  r_color :: string

record render_state =
  r_players :: "render_player list"
  r_coins :: "coin list"

text \<open>
  A player or a snapshot returned as it is (the branches of \<^verbatim>\<open>interpolateState\<close> that
  return an object of the buffer): the same fields, the coordinates finite.
\<close>

definition as_rendered :: "player_view \<Rightarrow> render_player" where
  "as_rendered p =
     \<lparr>r_id = v_id p, r_x = Num (v_x p), r_y = Num (v_y p), r_score = v_score p,
      r_color = v_color p\<rparr>"

definition as_render_state :: "snapshot \<Rightarrow> render_state" where
  "as_render_state s = \<lparr>r_players = map as_rendered (snap_players s), r_coins = snap_coins s\<rparr>"

text \<open>
  The \<^verbatim>\<open>for\<close> loop of \<^verbatim>\<open>interpolateState\<close> from index \<open>i\<close>: the first adjacent pair with
  \<^verbatim>\<open>serverStates[i].timestamp <= renderTime\<close> and
  \<^verbatim>\<open>serverStates[i + 1].timestamp >= renderTime\<close>, where the loop breaks; \<open>None\<close> when
  it runs to the end with \<^verbatim>\<open>before\<close> and \<^verbatim>\<open>after\<close> still \<^verbatim>\<open>null\<close>.
\<close>

function interpolateState_loop :: "snapshot list \<Rightarrow> int \<Rightarrow> nat \<Rightarrow> (snapshot \<times> snapshot) option" where
  "interpolateState_loop ss renderTime i =
     (if i < length ss - 1 then
        (if timestamp (ss ! i) \<le> renderTime \<and> timestamp (ss ! (i + 1)) \<ge> renderTime
         then Some (ss ! i, ss ! (i + 1))
         else interpolateState_loop ss renderTime (i + 1))
      else None)"
  by pat_completeness auto

termination
  by (relation "measure (\<lambda>(ss, renderTime, i). length ss - i)") auto

declare interpolateState_loop.simps [simp del]

text \<open>
  The function mapped over \<^verbatim>\<open>before.players\<close>: \<^verbatim>\<open>find\<close> gives the first player of
  \<^verbatim>\<open>after\<close> with the same id; without one the player of \<^verbatim>\<open>before\<close> is returned.
\<close>

definition interpolatedPlayer :: "snapshot \<Rightarrow> jsnum \<Rightarrow> player_view \<Rightarrow> render_player" where
  "interpolatedPlayer after t beforePlayer =
     (case find (\<lambda>p. v_id p = v_id beforePlayer) (snap_players after) of
        None \<Rightarrow> as_rendered beforePlayer
      | Some afterPlayer \<Rightarrow>
          \<lparr>r_id = v_id beforePlayer,
           r_x = js_add (v_x beforePlayer) (js_mul (js_sub (v_x afterPlayer) (v_x beforePlayer)) t),
           r_y = js_add (v_y beforePlayer) (js_mul (js_sub (v_y afterPlayer) (v_y beforePlayer)) t),
           r_score = v_score afterPlayer,
           r_color = v_color beforePlayer\<rparr>)"

text \<open>
  \<^verbatim>\<open>interpolateState\<close>, with \<open>now\<close> the value of \<^verbatim>\<open>Date.now()\<close>. Timestamps and
  \<open>now\<close> are integers of milliseconds, which doubles hold exactly, so the two
  differences of timestamps are exact; the division that gives \<^verbatim>\<open>t\<close> is rounded, and
  has no guard.
\<close>

definition interpolateState :: "int \<Rightarrow> GameClient \<Rightarrow> render_state" where
  "interpolateState now c =
     (let renderTime = now - INTERPOLATION_DELAY; ss = serverStates c in
      if length ss < 2 then
        (case ss of [] \<Rightarrow> \<lparr>r_players = [], r_coins = []\<rparr> | s # _ \<Rightarrow> as_render_state s)
      else
        (case interpolateState_loop ss renderTime 0 of
           None \<Rightarrow> as_render_state (ss ! (length ss - 1))
         | Some (before, after) \<Rightarrow>
             (let t = js_div (real_of_int (renderTime - timestamp before))
                             (real_of_int (timestamp after - timestamp before))
              in \<lparr>r_players = map (interpolatedPlayer after t) (snap_players before),
                  r_coins = snap_coins after\<rparr>)))"

section \<open>The server: values and state\<close>

text \<open>
  A value \<^verbatim>\<open>JSON.parse\<close> can return, and \<^verbatim>\<open>undefined\<close>, which reading a missing
  property gives. An object keeps its properties as a list of pairs.
\<close>

datatype jsval =
  JUndefined
| JNull
| JBool bool
| JNum real
| JStr string
| JArr "jsval list"
| JObj "(string \<times> jsval) list"

datatype error = TypeError | SyntaxError

text \<open>The truth value JavaScript gives a value in the condition of an \<^verbatim>\<open>if\<close>.\<close>

fun truthy :: "jsval \<Rightarrow> bool" where
  "truthy JUndefined = False"
| "truthy JNull = False"
| "truthy (JBool b) = b"
| "truthy (JNum r) = (r \<noteq> 0)"
| "truthy (JStr s) = (s \<noteq> [])"
| "truthy (JArr _) = True"
| "truthy (JObj _) = True"

text \<open>
  Reading the property \<open>k\<close> of a value, for the names the server reads (\<^verbatim>\<open>type\<close>,
  \<^verbatim>\<open>inputs\<close>, \<^verbatim>\<open>up\<close>, \<^verbatim>\<open>down\<close>, \<^verbatim>\<open>left\<close>, \<^verbatim>\<open>right\<close>): \<^verbatim>\<open>null\<close> and \<^verbatim>\<open>undefined\<close>
  throw a TypeError, an object gives the property (the last one of that name, as
  \<^verbatim>\<open>JSON.parse\<close> keeps it) or \<^verbatim>\<open>undefined\<close>, and a boolean, number, string or array has
  no property of these names.
\<close>

fun get_prop :: "jsval \<Rightarrow> string \<Rightarrow> error + jsval" where
  "get_prop JUndefined k = Inl TypeError"
| "get_prop JNull k = Inl TypeError"
| "get_prop (JObj kvs) k = Inr (case map_of (rev kvs) k of None \<Rightarrow> JUndefined | Some v \<Rightarrow> v)"
| "get_prop _ k = Inr JUndefined"

text \<open>
  A player object of the server. \<open>p_ws\<close> names the connection the closure
  \<^verbatim>\<open>sendWithLatency\<close> of the player captured.
\<close>

record player =
  p_id :: nat
  p_x :: real
  p_y :: real
  p_score :: int
  p_color :: string
  p_ws :: nat
  p_inputs :: jsval

text \<open>
  What \<^verbatim>\<open>sendWithLatency\<close> is called with. The players of a state message are fresh
  objects (\<^verbatim>\<open>serializePlayer\<close>); its \<^verbatim>\<open>coins\<close> is the server's array itself, a
  reference into the store.
\<close>

type_synonym addr = nat

datatype payload =
  InitData nat player_view
| StateData int "player_view list" addr

text \<open>
  The server. \<open>players\<close> is the \<^verbatim>\<open>Map\<close>, in insertion order; \<open>coins\<close> is the address of
  the array \<^verbatim>\<open>this.coins\<close> in \<open>heap\<close>; \<open>timers\<close> holds the pending callbacks of
  \<^verbatim>\<open>sendWithLatency\<close>, oldest first (all have the same delay, so they fire in this
  order); \<open>closed\<close> lists the connections whose \<^verbatim>\<open>readyState\<close> is no longer
  \<^verbatim>\<open>OPEN\<close>; \<open>sent\<close> records every \<^verbatim>\<open>ws.send\<close>: the connection and the message the
  client parses.
\<close>

record GameServer =
  players :: "(nat \<times> player) list"
  coins :: addr
  heap :: "addr \<Rightarrow> coin list"
  nextPlayerId :: nat
  gameStarted :: bool
  timers :: "(nat \<times> payload) list"
  closed :: "nat list"
  sent :: "(nat \<times> message) list"

definition the_coins :: "GameServer \<Rightarrow> coin list" where
  "the_coins s = heap s (coins s)"

definition constructor :: GameServer where
  "constructor =
     \<lparr>players = [], coins = 0, heap = (\<lambda>_. []), nextPlayerId = 1, gameStarted = False,
      timers = [], closed = [], sent = []\<rparr>"

text \<open>\<^verbatim>\<open>Map.set\<close> and \<^verbatim>\<open>Map.delete\<close> on the insertion-ordered list.\<close>

definition map_set :: "(nat \<times> 'v) list \<Rightarrow> nat \<Rightarrow> 'v \<Rightarrow> (nat \<times> 'v) list" where
  "map_set m k v =
     (if k \<in> fst ` set m then map (\<lambda>(k', v'). if k' = k then (k', v) else (k', v')) m
      else m @ [(k, v)])"

definition map_delete :: "(nat \<times> 'v) list \<Rightarrow> nat \<Rightarrow> (nat \<times> 'v) list" where
  "map_delete m k = filter (\<lambda>(k', _). k' \<noteq> k) m"

definition serializePlayer :: "player \<Rightarrow> player_view" where
  "serializePlayer p =
     \<lparr>v_id = p_id p, v_x = p_x p, v_y = p_y p, v_score = p_score p, v_color = p_color p\<rparr>"

text \<open>\<^verbatim>\<open>JSON.stringify(data)\<close> as the client parses it: the reference is read when it runs.\<close>

definition stringify :: "(addr \<Rightarrow> coin list) \<Rightarrow> payload \<Rightarrow> message" where
  "stringify h d =
     (case d of InitData playerId pv \<Rightarrow> Init playerId pv
      | StateData ts ps a \<Rightarrow> State ts ps (h a))"

text \<open>\<^verbatim>\<open>sendWithLatency\<close> registers the timer; \<open>timer_fires\<close> is its callback running.\<close>

definition sendWithLatency :: "nat \<Rightarrow> payload \<Rightarrow> GameServer \<Rightarrow> GameServer" where
  "sendWithLatency ws d s = s\<lparr>timers := timers s @ [(ws, d)]\<rparr>"

definition timer_fires :: "GameServer \<Rightarrow> GameServer" where
  "timer_fires s =
     (case timers s of
        [] \<Rightarrow> s
      | (ws, d) # rest \<Rightarrow>
          (if ws \<notin> set (closed s)
           then s\<lparr>timers := rest, sent := sent s @ [(ws, stringify (heap s) d)]\<rparr>
           else s\<lparr>timers := rest\<rparr>))"

definition spawnCoin :: "int \<Rightarrow> real \<Rightarrow> real \<Rightarrow> GameServer \<Rightarrow> GameServer" where
  "spawnCoin now rx ry s =
     s\<lparr>heap := (heap s)(coins s := heap s (coins s) @
         [\<lparr>c_id = now, c_x = rx * (MAP_SIZE - COIN_SIZE), c_y = ry * (MAP_SIZE - COIN_SIZE)\<rparr>])\<rparr>"

text \<open>
  \<^verbatim>\<open>broadcastGameState\<close>: the object \<^verbatim>\<open>state\<close> it builds, with \<open>now\<close> the value of
  \<^verbatim>\<open>Date.now()\<close>, then the loop that hands the same object to every player's
  \<^verbatim>\<open>sendWithLatency\<close>.
\<close>

definition buildSnapshot :: "int \<Rightarrow> GameServer \<Rightarrow> payload" where
  "buildSnapshot now s = StateData now (map (\<lambda>(_, p). serializePlayer p) (players s)) (coins s)"

definition broadcastGameState :: "int \<Rightarrow> GameServer \<Rightarrow> GameServer" where
  "broadcastGameState now s =
     (let state = buildSnapshot now s
      in fold (\<lambda>(_, player). sendWithLatency (p_ws player) state) (players s) s)"

text \<open>
  \<^verbatim>\<open>handleConnection\<close>. \<open>rx\<close>, \<open>ry\<close> are the values of \<^verbatim>\<open>Math.random()\<close> for the position
  and \<open>color\<close> the colour string made from the third; \<open>now\<close>, \<open>cx\<close>, \<open>cy\<close> are what
  \<^verbatim>\<open>spawnCoin\<close> reads if the game starts. The new connection is named by the player id.
  \<open>new_player\<close> is the object \<^verbatim>\<open>player\<close> the handler builds.
\<close>

definition new_player :: "nat \<Rightarrow> real \<Rightarrow> real \<Rightarrow> string \<Rightarrow> player" where
  "new_player playerId rx ry color =
     \<lparr>p_id = playerId, p_x = rx * (MAP_SIZE - PLAYER_SIZE), p_y = ry * (MAP_SIZE - PLAYER_SIZE),
      p_score = 0, p_color = color, p_ws = playerId,
      p_inputs = JObj [(''up'', JBool False), (''down'', JBool False),
                       (''left'', JBool False), (''right'', JBool False)]\<rparr>"

definition handleConnection ::
  "real \<Rightarrow> real \<Rightarrow> string \<Rightarrow> int \<Rightarrow> real \<Rightarrow> real \<Rightarrow> GameServer \<Rightarrow> GameServer" where
  "handleConnection rx ry color now cx cy s =
     (let playerId = nextPlayerId s;
          s1 = s\<lparr>nextPlayerId := nextPlayerId s + 1\<rparr>;
          player = new_player playerId rx ry color;
          s2 = s1\<lparr>players := map_set (players s1) playerId player\<rparr>;
          s3 = sendWithLatency playerId (InitData playerId (serializePlayer player)) s2
      in if length (players s3) \<ge> 2 \<and> \<not> gameStarted s3
         then spawnCoin now cx cy (s3\<lparr>gameStarted := True\<rparr>)
         else s3)"

text \<open>The handler of \<^verbatim>\<open>close\<close>: the connection is closed when it runs.\<close>

definition handleClose :: "nat \<Rightarrow> int \<Rightarrow> GameServer \<Rightarrow> GameServer" where
  "handleClose playerId now s =
     broadcastGameState now
       (s\<lparr>closed := playerId # closed s, players := map_delete (players s) playerId\<rparr>)"

text \<open>
  \<^verbatim>\<open>handleMessage\<close>: the body of the \<^verbatim>\<open>try\<close>, then the \<^verbatim>\<open>catch\<close>, which logs and
  returns. The message is given by what \<^verbatim>\<open>JSON.parse\<close> makes of it, \<open>None\<close> when it
  throws.
\<close>

definition handleMessage_try :: "nat \<Rightarrow> jsval option \<Rightarrow> GameServer \<Rightarrow> error + GameServer" where
  "handleMessage_try playerId parsed s =
     (case parsed of
        None \<Rightarrow> Inl SyntaxError
      | Some data \<Rightarrow>
          (case map_of (players s) playerId of
             None \<Rightarrow> Inr s
           | Some player \<Rightarrow>
               (case get_prop data ''type'' of
                  Inl e \<Rightarrow> Inl e
                | Inr ty \<Rightarrow>
                    if ty = JStr ''input'' then
                      (case get_prop data ''inputs'' of
                         Inl e \<Rightarrow> Inl e
                       | Inr v \<Rightarrow>
                           Inr (s\<lparr>players := map_set (players s) playerId (player\<lparr>p_inputs := v\<rparr>)\<rparr>))
                    else Inr s)))"

definition GameServer_handleMessage :: "nat \<Rightarrow> jsval option \<Rightarrow> GameServer \<Rightarrow> GameServer" where
  "GameServer_handleMessage playerId parsed s =
     (case handleMessage_try playerId parsed s of Inl e \<Rightarrow> s | Inr s' \<Rightarrow> s')"

text \<open>The AABB test of \<^verbatim>\<open>checkCoinCollisions\<close>.\<close>

definition overlaps :: "player \<Rightarrow> coin \<Rightarrow> bool" where
  "overlaps player coin \<longleftrightarrow>
     p_x player < c_x coin + COIN_SIZE \<and>
     p_x player + PLAYER_SIZE > c_x coin \<and>
     p_y player < c_y coin + COIN_SIZE \<and>
     p_y player + PLAYER_SIZE > c_y coin"

text \<open>
  The loop of \<^verbatim>\<open>checkCoinCollisions\<close> runs \<^verbatim>\<open>i\<close> from \<^verbatim>\<open>length - 1\<close> down to 0; the first
  argument here is \<^verbatim>\<open>i + 1\<close>, the number of indices still to visit.
  \<^verbatim>\<open>splice(i, 1)\<close> removes the element at \<^verbatim>\<open>i\<close>.
\<close>

fun checkCoinCollisions_loop :: "nat \<Rightarrow> player \<Rightarrow> coin list \<Rightarrow> player \<times> coin list" where
  "checkCoinCollisions_loop 0 player cs = (player, cs)"
| "checkCoinCollisions_loop (Suc i) player cs =
     (let coin = cs ! i in
      if overlaps player coin
      then checkCoinCollisions_loop i (player\<lparr>p_score := p_score player + 1\<rparr>)
             (take i cs @ drop (Suc i) cs)
      else checkCoinCollisions_loop i player cs)"

definition checkCoinCollisions :: "player \<Rightarrow> coin list \<Rightarrow> player \<times> coin list" where
  "checkCoinCollisions player cs = checkCoinCollisions_loop (length cs) player cs"

text \<open>
  The displacement \<^verbatim>\<open>update\<close> computes from \<^verbatim>\<open>player.inputs\<close>: the four reads, each of
  which throws when \<^verbatim>\<open>inputs\<close> is \<^verbatim>\<open>null\<close> or \<^verbatim>\<open>undefined\<close>, then the division by
  \<^verbatim>\<open>Math.sqrt(2)\<close> when both components are non-zero.
\<close>

definition displacement :: "jsval \<Rightarrow> error + real \<times> real" where
  "displacement inputs =
     (case get_prop inputs ''up'' of Inl e \<Rightarrow> Inl e | Inr up \<Rightarrow>
      case get_prop inputs ''down'' of Inl e \<Rightarrow> Inl e | Inr down \<Rightarrow>
      case get_prop inputs ''left'' of Inl e \<Rightarrow> Inl e | Inr left \<Rightarrow>
      case get_prop inputs ''right'' of Inl e \<Rightarrow> Inl e | Inr right \<Rightarrow>
        (let dy1 = (if truthy up then 0 - PLAYER_SPEED else 0);
             dy = (if truthy down then dy1 + PLAYER_SPEED else dy1);
             dx1 = (if truthy left then 0 - PLAYER_SPEED else 0);
             dx = (if truthy right then dx1 + PLAYER_SPEED else dx1)
         in if dx \<noteq> 0 \<and> dy \<noteq> 0 then Inr (dx / sqrt 2, dy / sqrt 2) else Inr (dx, dy)))"

text \<open>The player moved by the displacement and clamped to the map (lines 374 to 379).\<close>

definition move :: "player \<Rightarrow> real \<Rightarrow> real \<Rightarrow> player" where
  "move player dx dy =
     player\<lparr>p_x := max 0 (min (MAP_SIZE - PLAYER_SIZE) (p_x player + dx)),
            p_y := max 0 (min (MAP_SIZE - PLAYER_SIZE) (p_y player + dy))\<rparr>"

text \<open>
  The loop of \<^verbatim>\<open>update\<close> over the entries of the \<^verbatim>\<open>Map\<close>, with the coins array passed
  along. A TypeError leaves the loop: nothing catches it, and the process ends.
\<close>

fun update_loop ::
  "(nat \<times> player) list \<Rightarrow> coin list \<Rightarrow> error + (nat \<times> player) list \<times> coin list" where
  "update_loop [] cs = Inr ([], cs)"
| "update_loop ((pid, player) # rest) cs =
     (case displacement (p_inputs player) of
        Inl e \<Rightarrow> Inl e
      | Inr (dx, dy) \<Rightarrow>
          (let (player', cs') = checkCoinCollisions (move player dx dy) cs
           in case update_loop rest cs' of
                Inl e \<Rightarrow> Inl e
              | Inr (rest', cs'') \<Rightarrow> Inr ((pid, player') # rest', cs'')))"

definition update :: "GameServer \<Rightarrow> error + GameServer" where
  "update s =
     (case update_loop (players s) (heap s (coins s)) of
        Inl e \<Rightarrow> Inl e
      | Inr (ps, cs) \<Rightarrow> Inr (s\<lparr>players := ps, heap := (heap s)(coins s := cs)\<rparr>))"

text \<open>The two interval callbacks of \<^verbatim>\<open>startGameLoop\<close>.\<close>

definition tick :: "int \<Rightarrow> GameServer \<Rightarrow> error + GameServer" where
  "tick now s =
     (if gameStarted s
      then (case update s of Inl e \<Rightarrow> Inl e | Inr s' \<Rightarrow> Inr (broadcastGameState now s'))
      else Inr s)"

definition spawn_trigger :: "int \<Rightarrow> real \<Rightarrow> real \<Rightarrow> GameServer \<Rightarrow> GameServer" where
  "spawn_trigger now rx ry s =
     (if gameStarted s \<and> length (heap s (coins s)) < 5 then spawnCoin now rx ry s else s)"

text \<open>The events of the server's event loop, and a run of them from a state.\<close>

datatype event =
  Connect real real string int real real
| Message nat "jsval option"
| Close nat int
| Tick int
| SpawnTrigger int real real
| TimerFires

fun step :: "event \<Rightarrow> GameServer \<Rightarrow> error + GameServer" where
  "step (Connect rx ry color now cx cy) s = Inr (handleConnection rx ry color now cx cy s)"
| "step (Message playerId parsed) s = Inr (GameServer_handleMessage playerId parsed s)"
| "step (Close playerId now) s = Inr (handleClose playerId now s)"
| "step (Tick now) s = tick now s"
| "step (SpawnTrigger now rx ry) s = Inr (spawn_trigger now rx ry s)"
| "step TimerFires s = Inr (timer_fires s)"

fun run :: "event list \<Rightarrow> GameServer \<Rightarrow> error + GameServer" where
  "run [] s = Inr s"
| "run (e # es) s = (case step e s of Inl err \<Rightarrow> Inl err | Inr s' \<Rightarrow> run es s')"

section \<open>Vocabulary of the properties\<close>

text \<open>
  The adjacent pair at index \<open>k\<close> of the buffer brackets the render time.
\<close>

definition brackets :: "snapshot list \<Rightarrow> int \<Rightarrow> nat \<Rightarrow> bool" where
  "brackets ss renderTime k \<longleftrightarrow>
     Suc k < length ss \<and> timestamp (ss ! k) \<le> renderTime \<and> renderTime \<le> timestamp (ss ! Suc k)"

text \<open>
  The constants of the rounding error: \<open>eps\<close> is the unit roundoff \<open>2 powi (- 53)\<close>,
  \<open>tiny\<close> is half the smallest positive double, and \<open>coord_limit\<close> bounds the
  coordinates for which no operation of the interpolation overflows.
\<close>

definition eps :: real where "eps = 1 / 2 ^ 53"

definition tiny :: real where "tiny = 2 powi (- 1075)"

definition coord_limit :: real where "coord_limit = 2 powi 1000"

text \<open>
  A player lies on the map: both coordinates in \<open>[0, MAP_SIZE - PLAYER_SIZE]\<close>.
\<close>

definition in_bounds :: "player \<Rightarrow> bool" where
  "in_bounds p \<longleftrightarrow>
     0 \<le> p_x p \<and> p_x p \<le> MAP_SIZE - PLAYER_SIZE \<and> 0 \<le> p_y p \<and> p_y p \<le> MAP_SIZE - PLAYER_SIZE"

definition on_map :: "GameServer \<Rightarrow> bool" where
  "on_map s \<longleftrightarrow> (\<forall>q\<in>set (players s). in_bounds (snd q))"

text \<open>
  A stored \<^verbatim>\<open>inputs\<close> value whose properties can be read without a TypeError.
\<close>

definition readable :: "jsval \<Rightarrow> bool" where
  "readable v \<longleftrightarrow> v \<noteq> JNull \<and> v \<noteq> JUndefined"

text \<open>
  The direction \<open>k\<close> counts as pressed in \<open>inputs\<close>: the truth value JavaScript gives
  \<^verbatim>\<open>inputs[k]\<close>.
\<close>

definition flag :: "jsval \<Rightarrow> string \<Rightarrow> bool" where
  "flag inputs k = (case get_prop inputs k of Inl _ \<Rightarrow> False | Inr v \<Rightarrow> truthy v)"

text \<open>
  The displacement along one axis before normalisation: the speed for the flag of the
  positive direction minus the speed for the flag of the negative direction.
\<close>

definition net :: "bool \<Rightarrow> bool \<Rightarrow> real" where
  "net fwd back = (if fwd then PLAYER_SPEED else 0) - (if back then PLAYER_SPEED else 0)"

text \<open>
  The Euclidean length of a displacement.
\<close>

definition magnitude :: "real \<times> real \<Rightarrow> real" where
  "magnitude d = sqrt ((fst d)\<^sup>2 + (snd d)\<^sup>2)"

text \<open>
  \<^verbatim>\<open>Math.random()\<close> returns a number in \<open>[0, 1)\<close>; an event is well formed when its
  random values are such numbers.
\<close>

definition unit_random :: "real \<Rightarrow> bool" where
  "unit_random r \<longleftrightarrow> 0 \<le> r \<and> r < 1"

fun wf_event :: "event \<Rightarrow> bool" where
  "wf_event (Connect rx ry color now cx cy) =
     (unit_random rx \<and> unit_random ry \<and> unit_random cx \<and> unit_random cy)"
| "wf_event (SpawnTrigger now rx ry) = (unit_random rx \<and> unit_random ry)"
| "wf_event _ = True"

text \<open>
  The states a run passes through, the starting state first.
\<close>

fun trace :: "event list \<Rightarrow> GameServer \<Rightarrow> GameServer list" where
  "trace [] s = [s]"
| "trace (e # es) s = s # (case step e s of Inl _ \<Rightarrow> [] | Inr s' \<Rightarrow> trace es s')"

text \<open>
  Invariants of the server: scores are not negative; before the game has started there
  are fewer than two players and no coin; there are at most five coins; every player
  id is below \<^verbatim>\<open>nextPlayerId\<close>.
\<close>

definition server_inv :: "GameServer \<Rightarrow> bool" where
  "server_inv s \<longleftrightarrow>
     (\<forall>q\<in>set (players s). 0 \<le> p_score (snd q)) \<and>
     (\<not> gameStarted s \<longrightarrow> length (players s) < 2 \<and> the_coins s = []) \<and>
     length (the_coins s) \<le> 5"

definition ids_fresh :: "GameServer \<Rightarrow> bool" where
  "ids_fresh s \<longleftrightarrow> (\<forall>q\<in>set (players s). fst q < nextPlayerId s)"

text \<open>
  The coin an event creates if it spawns one.
\<close>

fun spawned :: "event \<Rightarrow> coin list" where
  "spawned (Connect rx ry color now cx cy) =
     [\<lparr>c_id = now, c_x = cx * (MAP_SIZE - COIN_SIZE), c_y = cy * (MAP_SIZE - COIN_SIZE)\<rparr>]"
| "spawned (SpawnTrigger now rx ry) =
     [\<lparr>c_id = now, c_x = rx * (MAP_SIZE - COIN_SIZE), c_y = ry * (MAP_SIZE - COIN_SIZE)\<rparr>]"
| "spawned _ = []"

section \<open>Example inputs\<close>

definition example_before :: snapshot where
  "example_before =
     \<lparr>timestamp = 0,
      snap_players = [\<lparr>v_id = 1, v_x = 0, v_y = 0, v_score = 0, v_color = ''red''\<rparr>,
                      \<lparr>v_id = 2, v_x = 40, v_y = 60, v_score = 3, v_color = ''blue''\<rparr>],
      snap_coins = []\<rparr>"

definition example_after :: snapshot where
  "example_after =
     \<lparr>timestamp = 100,
      snap_players = [\<lparr>v_id = 1, v_x = 10, v_y = 0, v_score = 1, v_color = ''red''\<rparr>],
      snap_coins = [\<lparr>c_id = 7, c_x = 300, c_y = 200\<rparr>]\<rparr>"

definition example_client :: GameClient where
  "example_client = \<lparr>myPlayerId = Some 1, serverStates = [example_before, example_after]\<rparr>"

definition duplicate_after :: snapshot where
  "duplicate_after =
     \<lparr>timestamp = 0,
      snap_players = [\<lparr>v_id = 1, v_x = 10, v_y = 0, v_score = 1, v_color = ''red''\<rparr>],
      snap_coins = []\<rparr>"

definition duplicate_client :: GameClient where
  "duplicate_client = \<lparr>myPlayerId = Some 1, serverStates = [example_before, duplicate_after]\<rparr>"

definition moving_before :: snapshot where
  "moving_before =
     \<lparr>timestamp = 0,
      snap_players = [\<lparr>v_id = 3, v_x = 8, v_y = 6, v_score = 2, v_color = ''green''\<rparr>],
      snap_coins = []\<rparr>"

definition moving_after :: snapshot where
  "moving_after =
     \<lparr>timestamp = 100,
      snap_players = [\<lparr>v_id = 3, v_x = 12, v_y = 9, v_score = 4, v_color = ''green''\<rparr>],
      snap_coins = []\<rparr>"

definition moving_client :: GameClient where
  "moving_client = \<lparr>myPlayerId = Some 3, serverStates = [moving_before, moving_after]\<rparr>"

definition rounding_before :: snapshot where
  "rounding_before =
     \<lparr>timestamp = 0,
      snap_players = [\<lparr>v_id = 1, v_x = 3152519739159347 / 4503599627370496, v_y = 0,
                       v_score = 0, v_color = ''red''\<rparr>],
      snap_coins = []\<rparr>"

definition rounding_after :: snapshot where
  "rounding_after =
     \<lparr>timestamp = 100,
      snap_players = [\<lparr>v_id = 1, v_x = 3602879701896397 / 36028797018963968, v_y = 0,
                       v_score = 0, v_color = ''red''\<rparr>],
      snap_coins = []\<rparr>"

definition rounding_client :: GameClient where
  "rounding_client = \<lparr>myPlayerId = Some 1, serverStates = [rounding_before, rounding_after]\<rparr>"

definition edge_server :: GameServer where
  "edge_server =
     \<lparr>players =
        [(1, \<lparr>p_id = 1, p_x = 769, p_y = 400, p_score = 0, p_color = ''hsl(0, 70%, 60%)'',
              p_ws = 1, p_inputs = JObj [(''up'', JBool False), (''down'', JBool False),
                                         (''left'', JBool False), (''right'', JBool True)]\<rparr>),
         (2, \<lparr>p_id = 2, p_x = 100, p_y = 1, p_score = 2, p_color = ''hsl(120, 70%, 60%)'',
              p_ws = 2, p_inputs = JObj [(''up'', JBool True), (''down'', JBool False),
                                         (''left'', JBool False), (''right'', JBool False)]\<rparr>)],
      coins = 0, heap = (\<lambda>_. []), nextPlayerId = 3, gameStarted = True,
      timers = [], closed = [], sent = []\<rparr>"

definition input_message :: "jsval \<Rightarrow> jsval" where
  "input_message inputs = JObj [(''type'', JStr ''input''), (''inputs'', inputs)]"

definition up_right :: jsval where
  "up_right = JObj [(''up'', JBool True), (''down'', JBool False),
                    (''left'', JBool False), (''right'', JBool True)]"

definition all_four :: jsval where
  "all_four = JObj [(''up'', JBool True), (''down'', JBool True),
                    (''left'', JBool True), (''right'', JBool True)]"

definition left_right :: jsval where
  "left_right = JObj [(''up'', JBool False), (''down'', JBool False),
                      (''left'', JBool True), (''right'', JBool True)]"

definition idle_server :: GameServer where
  "idle_server =
     \<lparr>players = [(1, new_player 1 (1/2) (1/2) ''hsl(0, 70%, 60%)'')],
      coins = 0, heap = (\<lambda>_. []), nextPlayerId = 2, gameStarted = False,
      timers = [(1, InitData 1 (serializePlayer (new_player 1 (1/2) (1/2) ''hsl(0, 70%, 60%)'')))],
      closed = [], sent = []\<rparr>"

definition collision_server :: GameServer where
  "collision_server =
     \<lparr>players =
        [(1, \<lparr>p_id = 1, p_x = 170, p_y = 190, p_score = 0, p_color = ''hsl(0, 70%, 60%)'',
              p_ws = 1, p_inputs = JObj [(''up'', JBool False), (''down'', JBool False),
                                         (''left'', JBool False), (''right'', JBool True)]\<rparr>),
         (2, \<lparr>p_id = 2, p_x = 200, p_y = 200, p_score = 4, p_color = ''hsl(120, 70%, 60%)'',
              p_ws = 2, p_inputs = JObj [(''up'', JBool False), (''down'', JBool False),
                                         (''left'', JBool False), (''right'', JBool False)]\<rparr>)],
      coins = 0,
      heap = (\<lambda>_. [])(0 := [\<lparr>c_id = 2000, c_x = 195, c_y = 195\<rparr>,
                              \<lparr>c_id = 5000, c_x = 600, c_y = 600\<rparr>]),
      nextPlayerId = 3, gameStarted = True, timers = [], closed = [], sent = []\<rparr>"

definition collision_after :: GameServer where
  "collision_after =
     \<lparr>players =
        [(1, \<lparr>p_id = 1, p_x = 173, p_y = 190, p_score = 1, p_color = ''hsl(0, 70%, 60%)'',
              p_ws = 1, p_inputs = JObj [(''up'', JBool False), (''down'', JBool False),
                                         (''left'', JBool False), (''right'', JBool True)]\<rparr>),
         (2, \<lparr>p_id = 2, p_x = 200, p_y = 200, p_score = 4, p_color = ''hsl(120, 70%, 60%)'',
              p_ws = 2, p_inputs = JObj [(''up'', JBool False), (''down'', JBool False),
                                         (''left'', JBool False), (''right'', JBool False)]\<rparr>)],
      coins = 0,
      heap = (\<lambda>_. [])(0 := [\<lparr>c_id = 5000, c_x = 600, c_y = 600\<rparr>]),
      nextPlayerId = 3, gameStarted = True, timers = [], closed = [], sent = []\<rparr>"

definition stale_run :: "event list" where
  "stale_run =
     [Connect (1/2) (1/2) ''hsl(0, 70%, 60%)'' 1000 (1/4) (1/4),
      TimerFires,
      Connect (1/10) (1/10) ''hsl(120, 70%, 60%)'' 2000 (1/4) (1/4),
      TimerFires,
      Tick 3000,
      SpawnTrigger 3100 (3/4) (3/4),
      TimerFires]"

definition view_one :: player_view where
  "view_one = \<lparr>v_id = 1, v_x = 385, v_y = 385, v_score = 0, v_color = ''hsl(0, 70%, 60%)''\<rparr>"

definition view_two :: player_view where
  "view_two = \<lparr>v_id = 2, v_x = 77, v_y = 77, v_score = 0, v_color = ''hsl(120, 70%, 60%)''\<rparr>"

definition started_server :: GameServer where
  "started_server =
     \<lparr>players = [(1, new_player 1 (1/2) (1/2) ''hsl(0, 70%, 60%)''),
                 (2, new_player 2 (1/10) (1/10) ''hsl(120, 70%, 60%)'')],
      coins = 0, heap = (\<lambda>_. [])(0 := [\<lparr>c_id = 2000, c_x = 195, c_y = 195\<rparr>]),
      nextPlayerId = 3, gameStarted = True, timers = [], closed = [],
      sent = [(1, Init 1 view_one), (2, Init 2 view_two)]\<rparr>"

section \<open>Rounding to double precision\<close>

lemma round_even_err: "\<bar>of_int (round_even y) - y\<bar> \<le> 1 / 2"
proof -
  have "of_int \<lfloor>y\<rfloor> \<le> y" "y < of_int \<lfloor>y\<rfloor> + 1" by linarith+
  then show ?thesis by (auto simp: round_even_def Let_def)
qed

lemma round_even_of_int [simp]: "round_even (of_int k) = k"
  by (simp add: round_even_def)

lemma round_even_le:
  assumes "y \<le> of_int N"
  shows "round_even y \<le> N"
proof (cases "\<lfloor>y\<rfloor> = N")
  case True
  then have "of_int N \<le> y" by (metis of_int_floor_le)
  with assms have "y = of_int N" by simp
  then show ?thesis by simp
next
  case False
  from assms have "\<lfloor>y\<rfloor> \<le> N" by (simp add: floor_le_iff)
  with False have "\<lfloor>y\<rfloor> + 1 \<le> N" by simp
  then show ?thesis by (auto simp: round_even_def Let_def)
qed

lemma round_even_ge:
  assumes "of_int N \<le> y"
  shows "N \<le> round_even y"
proof -
  from assms have "N \<le> \<lfloor>y\<rfloor>" by (simp add: le_floor_iff)
  then show ?thesis by (auto simp: round_even_def Let_def)
qed

lemma powr_powi: "2 powr real_of_int k = (2::real) powi k"
  by (rule powr_real_of_int') simp_all

lemma powr_powi_Suc: "2 powr (real_of_int k + 1) = (2::real) powi (k + 1)"
proof -
  have "real_of_int k + 1 = real_of_int (k + 1)" by simp
  then show ?thesis by (simp only: powr_powi)
qed

lemma pow2_pos: "(0::real) < 2 powi k"
  by (rule zero_less_power_int) simp

lemma pow2_less_imp:
  assumes "(2::real) powi m < 2 powi n"
  shows "m < n"
proof (rule ccontr)
  assume "\<not> m < n"
  then have "n \<le> m" by simp
  then have "(2::real) powi n \<le> 2 powi m" by (rule power_int_increasing) simp
  with assms show False by simp
qed

lemma pow2_le_imp:
  assumes "(2::real) powi m \<le> 2 powi n"
  shows "m \<le> n"
proof (rule ccontr)
  assume "\<not> m \<le> n"
  then have "n < m" by simp
  then have "(2::real) powi n < 2 powi m" by (rule power_int_strict_increasing) simp
  with assms show False by simp
qed

lemma exponent_iff:
  assumes "0 < \<bar>x\<bar>"
  shows "exponent x = e \<longleftrightarrow> 2 powi e \<le> \<bar>x\<bar> \<and> \<bar>x\<bar> < 2 powi (e + 1)"
  unfolding exponent_def
  using floor_log_eq_powr_iff[OF assms, of 2 e] by (simp only: powr_powi powr_powi_Suc)

lemma exponent_bounds:
  assumes "x \<noteq> 0"
  shows "2 powi exponent x \<le> \<bar>x\<bar>" "\<bar>x\<bar> < 2 powi (exponent x + 1)"
proof -
  have pos: "0 < \<bar>x\<bar>" using assms by simp
  from exponent_iff[OF pos, of "exponent x"]
  show "2 powi exponent x \<le> \<bar>x\<bar>" "\<bar>x\<bar> < 2 powi (exponent x + 1)" by simp_all
qed

lemma exponent_eq:
  assumes "2 powi e \<le> \<bar>x\<bar>" "\<bar>x\<bar> < 2 powi (e + 1)"
  shows "exponent x = e"
proof -
  from assms(1) pow2_pos[of e] have pos: "0 < \<bar>x\<bar>" by linarith
  from exponent_iff[OF pos, of e] assms show ?thesis by simp
qed

lemma quantum_pos [simp]: "0 < quantum x"
  by (simp add: quantum_def)

lemma quantum_nz [simp]: "quantum x \<noteq> 0"
  using quantum_pos[of x] by linarith

lemma quantum_nonneg [simp]: "0 \<le> quantum x"
  using quantum_pos[of x] by linarith

lemma fl_0 [simp]: "fl 0 = 0"
  by (simp add: fl_def)

lemma tiny_pos: "0 < tiny"
  unfolding tiny_def by (rule zero_less_power_int) simp

lemma min_quantum: "2 powi (- 1074) = 2 * tiny"
proof -
  have "(2::real) powi (- 1075 + 1) = 2 powi (- 1075) * 2"
    by (rule power_int_add_1) simp
  moreover have "(- 1075 + 1 :: int) = - 1074" by simp
  ultimately have "(2::real) powi (- 1074) = 2 powi (- 1075) * 2" by (simp only:)
  then show ?thesis unfolding tiny_def by (simp only: mult.commute)
qed

lemma quantum_cases:
  "(- 1074 \<le> exponent x - 52 \<and> quantum x = 2 powi exponent x / 2 ^ 52) \<or>
   (exponent x - 52 < - 1074 \<and> quantum x = 2 * tiny)"
proof (cases "- 1074 \<le> exponent x - 52")
  case True
  then have "max (exponent x - 52) (- 1074) = exponent x - 52" by simp
  then have "quantum x = 2 powi (exponent x - 52)" unfolding quantum_def by (simp only:)
  also have "\<dots> = 2 powi exponent x / 2 powi 52" by (rule power_int_diff) simp
  also have "(2::real) powi 52 = 2 ^ 52" by (rule power_int_numeral)
  finally show ?thesis using True by blast
next
  case False
  then have "max (exponent x - 52) (- 1074) = - 1074" by simp
  then have "quantum x = 2 powi (- 1074)" unfolding quantum_def by (simp only:)
  with False show ?thesis by (simp only: min_quantum) simp
qed

lemma fl_quantum_err:
  assumes "x \<noteq> 0"
  shows "\<bar>fl x - x\<bar> \<le> quantum x / 2"
proof -
  let ?q = "quantum x"
  have "fl x - x = ?q * (of_int (round_even (x / ?q)) - x / ?q)"
    using assms by (simp add: fl_def algebra_simps)
  moreover have "\<bar>?q\<bar> = ?q" by (rule abs_of_pos) (rule quantum_pos)
  ultimately have "\<bar>fl x - x\<bar> = ?q * \<bar>of_int (round_even (x / ?q)) - x / ?q\<bar>"
    by (simp add: abs_mult)
  also have "\<dots> \<le> ?q * (1 / 2)"
    by (intro mult_left_mono round_even_err) simp
  finally show ?thesis by simp
qed

lemma fl_err: "\<bar>fl x - x\<bar> \<le> eps * \<bar>x\<bar> + tiny"
proof (cases "x = 0")
  case True
  then show ?thesis using tiny_pos by simp
next
  case False
  note q = fl_quantum_err[OF False]
  note t0 = tiny_pos
  have e0: "0 \<le> eps * \<bar>x\<bar>" by (simp add: eps_def)
  from quantum_cases[of x] show ?thesis
  proof
    assume "- 1074 \<le> exponent x - 52 \<and> quantum x = 2 powi exponent x / 2 ^ 52"
    then have "quantum x / 2 = 2 powi exponent x * eps" by (simp add: eps_def)
    also have "\<dots> \<le> \<bar>x\<bar> * eps"
      by (intro mult_right_mono exponent_bounds(1)[OF False]) (simp add: eps_def)
    finally have "quantum x / 2 \<le> eps * \<bar>x\<bar>" by (simp add: mult.commute)
    with q t0 show ?thesis by linarith
  next
    assume "exponent x - 52 < - 1074 \<and> quantum x = 2 * tiny"
    then have "quantum x / 2 = tiny" by simp
    with q e0 show ?thesis by linarith
  qed
qed

lemma eps_bounds: "0 < eps" "eps \<le> 1"
  by (simp_all add: eps_def)

lemma fl_abs_le: "\<bar>fl x\<bar> \<le> 2 * \<bar>x\<bar> + tiny"
proof -
  have "eps * \<bar>x\<bar> \<le> 1 * \<bar>x\<bar>" by (intro mult_right_mono eps_bounds) simp
  with fl_err[of x] show ?thesis by linarith
qed

lemma fl_unit:
  assumes "0 \<le> y" "y \<le> 1"
  shows "0 \<le> fl y \<and> fl y \<le> 1"
proof (cases "y = 0")
  case True
  then show ?thesis by simp
next
  case False
  let ?k = "max (exponent y - 52) (- 1074)"
  have q: "quantum y = 2 powi ?k" by (simp only: quantum_def)
  from exponent_bounds(1)[OF False] assms have "(2::real) powi exponent y \<le> 2 powi 0" by simp
  then have "exponent y \<le> 0" by (rule pow2_le_imp)
  then have k: "?k \<le> 0" by simp
  define N :: int where "N = 2 ^ nat (- ?k)"
  have "(2::real) powi (- ?k) = 2 ^ nat (- ?k)" using k by (intro power_int_nonneg_exp) simp
  then have inv: "1 / quantum y = of_int N" unfolding q N_def by (simp only: power_int_minus_divide[symmetric]) simp
  have "y / quantum y = y * (1 / quantum y)" by simp
  also have "\<dots> \<le> 1 * (1 / quantum y)" by (intro mult_right_mono assms) simp
  finally have up: "y / quantum y \<le> of_int N" by (simp only: inv mult_1)
  have lo: "of_int 0 \<le> y / quantum y" using assms(1) by simp
  from round_even_le[OF up] have r1: "round_even (y / quantum y) \<le> N" .
  from round_even_ge[OF lo] have r0: "0 \<le> round_even (y / quantum y)" .
  have flq: "fl y = of_int (round_even (y / quantum y)) * quantum y" using False by (simp add: fl_def)
  have "of_int (round_even (y / quantum y)) * quantum y \<le> of_int N * quantum y"
    using r1 by (intro mult_right_mono) simp_all
  also have "of_int N * quantum y = 1" using inv by (simp add: field_simps)
  finally have "fl y \<le> 1" by (simp only: flq)
  moreover have "0 \<le> fl y" unfolding flq using r0 by (intro mult_nonneg_nonneg) simp_all
  ultimately show ?thesis by simp
qed

lemma fl_fixed:
  assumes "\<bar>k\<bar> < 2 ^ 53" "- 1074 \<le> j"
  shows "fl (of_int k * 2 powi j) = of_int k * 2 powi j"
proof (cases "k = 0")
  case True
  then show ?thesis by simp
next
  case False
  let ?x = "of_int k * (2::real) powi j"
  have nz: "?x \<noteq> 0" using False by simp
  let ?q = "max (exponent ?x - 52) (- 1074)"
  have q: "quantum ?x = 2 powi ?q" by (simp only: quantum_def)
  have "\<bar>?x\<bar> = of_int \<bar>k\<bar> * 2 powi j" by (simp add: abs_mult)
  also have "\<dots> < 2 ^ 53 * 2 powi j"
  proof (rule mult_strict_right_mono)
    from assms(1) have "real_of_int \<bar>k\<bar> < real_of_int (2 ^ 53)" by (simp only: of_int_less_iff)
    then show "real_of_int \<bar>k\<bar> < 2 ^ 53" by simp
  qed simp
  also have "\<dots> = 2 powi (53 + j)" by (simp add: power_int_add)
  finally have "\<bar>?x\<bar> < 2 powi (53 + j)" .
  with exponent_bounds(1)[OF nz] have "(2::real) powi exponent ?x < 2 powi (53 + j)" by linarith
  then have "exponent ?x < 53 + j" by (rule pow2_less_imp)
  with assms(2) have le: "?q \<le> j" by simp
  define d where "d = nat (j - ?q)"
  define q where "q = quantum ?x"
  have qnz: "q \<noteq> 0" unfolding q_def by simp
  have "(2::real) powi j = 2 powi (j - ?q) * 2 powi ?q"
    using power_int_add[of "2::real" "j - ?q" ?q] by simp
  also have "(2::real) powi (j - ?q) = 2 ^ d" unfolding d_def using le
    by (intro power_int_nonneg_exp) simp
  finally have pj: "(2::real) powi j = 2 ^ d * q" unfolding q_def by (simp only: q)
  have "?x / q = of_int k * 2 ^ d" using qnz by (simp add: pj)
  also have "\<dots> = of_int (k * 2 ^ d)" by simp
  finally have "round_even (?x / q) = k * 2 ^ d" by (simp only: round_even_of_int)
  then have "of_int (round_even (?x / q)) * q = of_int (k * 2 ^ d) * q" by (simp only:)
  also have "\<dots> = of_int k * (2 ^ d * q)" by simp
  also have "\<dots> = ?x" by (simp only: pj)
  finally have "of_int (round_even (?x / quantum ?x)) * quantum ?x = ?x" unfolding q_def .
  moreover have "fl ?x = of_int (round_even (?x / quantum ?x)) * quantum ?x"
    using nz by (simp only: fl_def if_False)
  ultimately show ?thesis by (simp only:)
qed

lemma fl_of_int: "\<bar>k\<bar> < 2 ^ 53 \<Longrightarrow> fl (of_int k) = of_int k"
  using fl_fixed[of k 0] by simp

lemma fl_eval:
  assumes "2 powi e \<le> \<bar>x\<bar>" "\<bar>x\<bar> < 2 powi (e + 1)" "- 1022 \<le> e"
  shows "fl x = of_int (round_even (x / 2 powi (e - 52))) * 2 powi (e - 52)"
proof -
  from assms(1) pow2_pos[of e] have "0 < \<bar>x\<bar>" by linarith
  then have nz: "x \<noteq> 0" by simp
  have "exponent x = e" by (rule exponent_eq[OF assms(1,2)])
  moreover from assms(3) have "max (e - 52) (- 1074) = e - 52" by simp
  ultimately have "quantum x = 2 powi (e - 52)" by (simp only: quantum_def)
  with nz show ?thesis by (simp only: fl_def if_False)
qed

lemma js_num_finite: "\<bar>fl x\<bar> < overflow \<Longrightarrow> js_num x = Num (fl x)"
  by (auto simp: js_num_def)

lemma coord_limit_ge_1: "1 \<le> coord_limit"
proof -
  have "(2::real) powi 0 \<le> 2 powi 1000" by (rule power_int_increasing) simp_all
  then show ?thesis unfolding coord_limit_def by (simp only: power_int_0_right)
qed

lemma overflow_limit: "overflow = 16777216 * coord_limit"
proof -
  have "(2::real) powi (24 + 1000) = 2 powi 24 * 2 powi 1000" by (rule power_int_add) simp
  moreover have "(24 + 1000 :: int) = 1024" by simp
  moreover have "(2::real) powi 24 = 2 ^ 24" by (rule power_int_numeral)
  ultimately have "(2::real) powi 1024 = 2 ^ 24 * 2 powi 1000" by (simp only:)
  then show ?thesis unfolding overflow_def coord_limit_def by simp
qed

lemma eps_powi: "eps = 2 powi (- 53)"
proof -
  have "(2::real) powi (- 53) = 1 / 2 powi 53" by (rule power_int_minus_divide)
  also have "(2::real) powi 53 = 2 ^ 53" by (rule power_int_numeral)
  finally show ?thesis unfolding eps_def by (simp only:)
qed

lemma tiny_le_eps: "tiny \<le> eps"
  unfolding tiny_def eps_powi by (rule power_int_increasing) simp_all

lemma tiny_le_1: "tiny \<le> 1"
  using tiny_le_eps eps_bounds(2) by linarith

lemma eps_numeral: "eps = 1 / 9007199254740992"
  by (simp add: eps_def)

lemma js_div_unit:
  assumes "0 \<le> n" "n \<le> d" "0 < d"
  shows "js_div n d = Num (fl (n / d)) \<and> 0 \<le> fl (n / d) \<and> fl (n / d) \<le> 1"
proof -
  from assms have "0 \<le> n / d" "n / d \<le> 1" by simp_all
  from fl_unit[OF this] have u: "0 \<le> fl (n / d)" "fl (n / d) \<le> 1" by simp_all
  from coord_limit_ge_1 have "1 < overflow" unfolding overflow_limit by linarith
  with u have "\<bar>fl (n / d)\<bar> < overflow" by linarith
  from js_num_finite[OF this] assms(3) u show ?thesis by (simp add: js_div_def)
qed

lemma js_div_zero: "js_div 0 0 = NaN"
  by (simp add: js_div_def)

lemma abs_mult_unit:
  fixes x r :: real
  assumes "0 \<le> r" "r \<le> 1"
  shows "\<bar>x * r\<bar> \<le> \<bar>x\<bar>"
proof -
  have "\<bar>x * r\<bar> = \<bar>x\<bar> * r" using assms(1) by (simp add: abs_mult)
  also have "\<dots> \<le> \<bar>x\<bar> * 1" by (intro mult_left_mono assms) simp
  finally show ?thesis by simp
qed

lemma finite_arith:
  fixes L t :: real
  assumes "pa \<le> L" "pb \<le> L" "pab \<le> pa + pb" "pD \<le> 2 * pab + t" "pDr \<le> pD"
    "pM \<le> 2 * pDr + t" "pbM \<le> pb + pM" "pX \<le> 2 * pbM + t" "t \<le> 1" "1 \<le> L"
  shows "pD < 16777216 * L" "pM < 16777216 * L" "pX < 16777216 * L"
  using assms by linarith+

lemma lerp_finite:
  assumes "\<bar>b\<bar> \<le> coord_limit" "\<bar>a\<bar> \<le> coord_limit" "0 \<le> r" "r \<le> 1"
  shows "js_add b (js_mul (js_sub a b) (Num r)) = Num (fl (b + fl (fl (a - b) * r)))"
proof -
  define D where "D = fl (a - b)"
  define M where "M = fl (D * r)"
  have ab: "\<bar>a - b\<bar> \<le> \<bar>a\<bar> + \<bar>b\<bar>" by (rule abs_triangle_ineq4)
  have D: "\<bar>D\<bar> \<le> 2 * \<bar>a - b\<bar> + tiny" unfolding D_def by (rule fl_abs_le)
  have Dr: "\<bar>D * r\<bar> \<le> \<bar>D\<bar>" by (rule abs_mult_unit[OF assms(3,4)])
  have M: "\<bar>M\<bar> \<le> 2 * \<bar>D * r\<bar> + tiny" unfolding M_def by (rule fl_abs_le)
  have bM: "\<bar>b + M\<bar> \<le> \<bar>b\<bar> + \<bar>M\<bar>" by (rule abs_triangle_ineq)
  have X: "\<bar>fl (b + M)\<bar> \<le> 2 * \<bar>b + M\<bar> + tiny" by (rule fl_abs_le)
  note fin = finite_arith[OF assms(2,1) ab D Dr M bM X tiny_le_1 coord_limit_ge_1,
      folded overflow_limit]
  from js_num_finite[OF fin(1)[unfolded D_def]]
  have s: "js_sub a b = Num D" by (simp add: js_sub_def D_def)
  from js_num_finite[OF fin(2)[unfolded M_def]]
  have m: "js_mul (Num D) (Num r) = Num M" by (simp add: M_def)
  from js_num_finite[OF fin(3)] have "js_add b (Num M) = Num (fl (b + M))" by simp
  then show ?thesis unfolding s m by (simp only: M_def D_def)
qed

lemma lerp_arith:
  fixes m \<eta> :: real
  assumes "dD \<le> ab / 9007199254740992 + \<eta>" "ab \<le> 2 * m" "aD \<le> ab + dD"
    "dM \<le> aDr / 9007199254740992 + \<eta>" "aDr \<le> aD" "aM \<le> aDr + dM"
    "dX \<le> abM / 9007199254740992 + \<eta>" "abM \<le> m + aM" "e \<le> dD"
    "tot \<le> dX + dM + e" "0 \<le> m" "0 \<le> \<eta>"
  shows "tot \<le> 8 * m / 9007199254740992 + 4 * \<eta>"
  using assms by linarith

lemma lerp_err:
  assumes "0 \<le> r" "r \<le> 1"
  shows "\<bar>fl (b + fl (fl (a - b) * r)) - (b + (a - b) * r)\<bar>
           \<le> 8 * eps * max \<bar>b\<bar> \<bar>a\<bar> + 4 * tiny"
proof -
  define D where "D = fl (a - b)"
  define M where "M = fl (D * r)"
  define X where "X = fl (b + M)"
  define m where "m = max \<bar>b\<bar> \<bar>a\<bar>"
  have m: "\<bar>b\<bar> \<le> m" "\<bar>a\<bar> \<le> m" "0 \<le> m" by (simp_all add: m_def)
  have A1: "\<bar>D - (a - b)\<bar> \<le> \<bar>a - b\<bar> / 9007199254740992 + tiny"
    using fl_err[of "a - b"] by (simp add: D_def eps_numeral)
  have A2: "\<bar>a - b\<bar> \<le> 2 * m" using m by linarith
  have A3: "\<bar>D\<bar> \<le> \<bar>a - b\<bar> + \<bar>D - (a - b)\<bar>" by linarith
  have B1: "\<bar>M - D * r\<bar> \<le> \<bar>D * r\<bar> / 9007199254740992 + tiny"
    using fl_err[of "D * r"] by (simp add: M_def eps_numeral)
  have B2: "\<bar>D * r\<bar> \<le> \<bar>D\<bar>" by (rule abs_mult_unit[OF assms])
  have B3: "\<bar>M\<bar> \<le> \<bar>D * r\<bar> + \<bar>M - D * r\<bar>" by linarith
  have C1: "\<bar>X - (b + M)\<bar> \<le> \<bar>b + M\<bar> / 9007199254740992 + tiny"
    using fl_err[of "b + M"] by (simp add: X_def eps_numeral)
  have C2: "\<bar>b + M\<bar> \<le> m + \<bar>M\<bar>" using m by linarith
  have "D * r - (a - b) * r = (D - (a - b)) * r" by (simp add: algebra_simps)
  then have E: "\<bar>D * r - (a - b) * r\<bar> \<le> \<bar>D - (a - b)\<bar>"
    using abs_mult_unit[OF assms, of "D - (a - b)"] by (simp only:)
  have T: "\<bar>X - (b + (a - b) * r)\<bar>
             \<le> \<bar>X - (b + M)\<bar> + \<bar>M - D * r\<bar> + \<bar>D * r - (a - b) * r\<bar>" by linarith
  from lerp_arith[OF A1 A2 A3 B1 B2 B3 C1 C2 E T m(3) less_imp_le[OF tiny_pos]]
  have "\<bar>X - (b + (a - b) * r)\<bar> \<le> 8 * m / 9007199254740992 + 4 * tiny" .
  then show ?thesis unfolding X_def M_def D_def m_def by (simp add: eps_numeral)
qed

lemma lerp_between:
  fixes a b r :: real
  assumes "0 \<le> r" "r \<le> 1"
  shows "min b a \<le> b + (a - b) * r \<and> b + (a - b) * r \<le> max b a"
proof (cases "b \<le> a")
  case True
  then have lo: "0 \<le> (a - b) * r" using assms by simp
  have hi: "(a - b) * r \<le> (a - b) * 1"
    using True assms by (intro mult_left_mono) simp_all
  from True have "min b a = b" "max b a = a" by simp_all
  with lo hi show ?thesis by simp
next
  case False
  then have hi: "(a - b) * r \<le> 0" using assms by (simp add: mult_nonpos_nonneg)
  have "(b - a) * r \<le> (b - a) * 1"
    using False assms by (intro mult_left_mono) simp_all
  then have lo: "a - b \<le> (a - b) * r" by (simp add: algebra_simps)
  from False have mm: "min b a = a" "max b a = b" by simp_all
  from lo hi show ?thesis unfolding mm by linarith
qed

lemma lerp_near:
  assumes "0 \<le> r" "r \<le> 1"
  shows "min b a - (8 * eps * max \<bar>b\<bar> \<bar>a\<bar> + 4 * tiny) \<le> fl (b + fl (fl (a - b) * r)) \<and>
         fl (b + fl (fl (a - b) * r)) \<le> max b a + (8 * eps * max \<bar>b\<bar> \<bar>a\<bar> + 4 * tiny)"
  using lerp_err[OF assms, of b a] lerp_between[OF assms, of b a] by linarith

lemma lerp_real:
  assumes "0 \<le> r" "r \<le> 1"
  shows "\<bar>fl (b + fl (fl (a - b) * fl r)) - (b + (a - b) * r)\<bar>
           \<le> 12 * eps * max \<bar>b\<bar> \<bar>a\<bar> + 4 * tiny"
proof -
  define m where "m = max \<bar>b\<bar> \<bar>a\<bar>"
  have m: "\<bar>b\<bar> \<le> m" "\<bar>a\<bar> \<le> m" "0 \<le> m" by (simp_all add: m_def)
  from fl_unit[OF assms] have f: "0 \<le> fl r" "fl r \<le> 1" by simp_all
  note e1 = lerp_err[OF f, of b a, folded m_def]
  have "eps * \<bar>r\<bar> \<le> eps * 1" using assms eps_bounds(1) by (intro mult_left_mono) simp_all
  with fl_err[of r] tiny_le_eps have d: "\<bar>fl r - r\<bar> \<le> 2 * eps" by linarith
  have "(b + (a - b) * fl r) - (b + (a - b) * r) = (a - b) * (fl r - r)"
    by (simp add: algebra_simps)
  then have "\<bar>(b + (a - b) * fl r) - (b + (a - b) * r)\<bar> = \<bar>a - b\<bar> * \<bar>fl r - r\<bar>"
    by (simp only: abs_mult)
  also have "\<dots> \<le> (2 * m) * (2 * eps)"
    using m d by (intro mult_mono) linarith+
  also have "\<dots> = 4 * eps * m" by simp
  finally have e2: "\<bar>(b + (a - b) * fl r) - (b + (a - b) * r)\<bar> \<le> 4 * eps * m" .
  from e1 e2 show ?thesis unfolding m_def[symmetric] by linarith
qed

lemma fl_numeral: "numeral n < (2::int) ^ 53 \<Longrightarrow> fl (numeral n) = numeral n"
  using fl_of_int[of "numeral n"] by simp

section \<open>Interpolation: the selected pair\<close>

lemma loop_Some:
  "interpolateState_loop ss rt i = Some (b, a) \<Longrightarrow>
   \<exists>k\<ge>i. brackets ss rt k \<and> b = ss ! k \<and> a = ss ! Suc k \<and>
          (\<forall>j\<in>{i..<k}. \<not> brackets ss rt j)"
proof (induction ss rt i rule: interpolateState_loop.induct)
  case (1 ss rt i)
  note unf = interpolateState_loop.simps[of ss rt i]
  show ?case
  proof (cases "i < length ss - 1")
    case False
    with "1.prems" unf show ?thesis by (auto split: if_splits)
  next
    case inb: True
    show ?thesis
    proof (cases "timestamp (ss ! i) \<le> rt \<and> timestamp (ss ! (i + 1)) \<ge> rt")
      case True
      with inb "1.prems" unf have ba: "b = ss ! i" "a = ss ! Suc i"
        by (auto split: if_splits)
      from True inb have br: "brackets ss rt i" by (simp add: brackets_def)
      have "i \<le> i \<and> brackets ss rt i \<and> b = ss ! i \<and> a = ss ! Suc i \<and>
          (\<forall>j\<in>{i..<i}. \<not> brackets ss rt j)"
        using ba br by simp
      then show ?thesis by (rule exI[of _ i])
    next
      case False
      with inb "1.prems" unf have "interpolateState_loop ss rt (i + 1) = Some (b, a)"
        by (auto split: if_splits)
      from "1.IH"[OF inb False this] obtain k where k: "i + 1 \<le> k" "brackets ss rt k"
        "b = ss ! k" "a = ss ! Suc k" "\<forall>j\<in>{i + 1..<k}. \<not> brackets ss rt j"
        by blast
      have nb: "\<not> brackets ss rt i" using False by (simp add: brackets_def)
      have "\<not> brackets ss rt j" if "j \<in> {i..<k}" for j
      proof (cases "j = i")
        case True
        with nb show ?thesis by simp
      next
        case False
        with that have "j \<in> {i + 1..<k}" by simp
        with k(5) show ?thesis by blast
      qed
      then have "i \<le> k \<and> brackets ss rt k \<and> b = ss ! k \<and> a = ss ! Suc k \<and>
          (\<forall>j\<in>{i..<k}. \<not> brackets ss rt j)"
        using k(1,2,3,4) by simp
      then show ?thesis by (rule exI[of _ k])
    qed
  qed
qed

lemma loop_finds:
  "brackets ss rt k \<Longrightarrow> i \<le> k \<Longrightarrow> \<exists>b a. interpolateState_loop ss rt i = Some (b, a)"
proof (induction ss rt i rule: interpolateState_loop.induct)
  case (1 ss rt i)
  note unf = interpolateState_loop.simps[of ss rt i]
  from "1.prems" have inb: "i < length ss - 1" unfolding brackets_def by linarith
  show ?case
  proof (cases "timestamp (ss ! i) \<le> rt \<and> timestamp (ss ! (i + 1)) \<ge> rt")
    case True
    with inb unf show ?thesis by (auto split: if_splits)
  next
    case False
    with "1.prems" have "i \<noteq> k" by (auto simp: brackets_def)
    with "1.prems" have "i + 1 \<le> k" by simp
    from "1.IH"[OF inb False "1.prems"(1) this] False inb unf show ?thesis
      by (auto split: if_splits)
  qed
qed

lemma interpolateState_selected:
  assumes "interpolateState_loop (serverStates c) (now - INTERPOLATION_DELAY) 0 = Some (before, after)"
  shows "interpolateState now c =
     \<lparr>r_players = map (interpolatedPlayer after
          (js_div (real_of_int (now - INTERPOLATION_DELAY - timestamp before))
                  (real_of_int (timestamp after - timestamp before)))) (snap_players before),
      r_coins = snap_coins after\<rparr>"
proof -
  from loop_Some[OF assms] have "2 \<le> length (serverStates c)"
    by (auto simp: brackets_def)
  with assms show ?thesis
    by (simp add: interpolateState_def Let_def)
qed

lemma loop_first:
  assumes "brackets ss rt i"
  shows "\<exists>k\<le>i. brackets ss rt k \<and> (\<forall>j<k. \<not> brackets ss rt j) \<and>
           interpolateState_loop ss rt 0 = Some (ss ! k, ss ! Suc k)"
proof -
  from loop_finds[OF assms, of 0] obtain b a where sel: "interpolateState_loop ss rt 0 = Some (b, a)"
    by auto
  from loop_Some[OF sel] obtain k where k: "brackets ss rt k" "b = ss ! k" "a = ss ! Suc k"
    "\<forall>j\<in>{0..<k}. \<not> brackets ss rt j" by blast
  from k(4) assms have "k \<le> i" by (meson atLeastLessThan_iff not_le zero_le)
  moreover from k(4) have "\<forall>j<k. \<not> brackets ss rt j" by simp
  ultimately show ?thesis using k(1,2,3) sel by blast
qed

lemma interpolatedPlayer_absent:
  "\<forall>p\<in>set (snap_players after). v_id p \<noteq> v_id bp \<Longrightarrow>
   interpolatedPlayer after t bp = as_rendered bp"
proof -
  assume "\<forall>p\<in>set (snap_players after). v_id p \<noteq> v_id bp"
  then have "find (\<lambda>p. v_id p = v_id bp) (snap_players after) = None"
    by (simp add: find_None_iff)
  then show ?thesis by (simp add: interpolatedPlayer_def)
qed

lemma interpolatedPlayer_present:
  "find (\<lambda>p. v_id p = v_id bp) (snap_players after) = Some ap \<Longrightarrow>
   interpolatedPlayer after t bp =
     \<lparr>r_id = v_id bp,
      r_x = js_add (v_x bp) (js_mul (js_sub (v_x ap) (v_x bp)) t),
      r_y = js_add (v_y bp) (js_mul (js_sub (v_y ap) (v_y bp)) t),
      r_score = v_score ap,
      r_color = v_color bp\<rparr>"
  by (simp add: interpolatedPlayer_def)

lemma js_mul_NaN: "js_mul x NaN = NaN"
  by (cases x) simp_all

lemma lerp_strict:
  assumes "0 \<le> n" "n \<le> d" "0 < d" "\<bar>b\<bar> \<le> coord_limit" "\<bar>a\<bar> \<le> coord_limit"
  shows "js_add b (js_mul (js_sub a b) (js_div n d)) =
           Num (fl (b + fl (fl (a - b) * fl (n / d))))"
proof -
  from js_div_unit[OF assms(1,2,3)]
  have t: "js_div n d = Num (fl (n / d))" and u: "0 \<le> fl (n / d)" "fl (n / d) \<le> 1"
    by simp_all
  from lerp_finite[OF assms(4,5) u] show ?thesis unfolding t .
qed

lemma lerp_undefined: "js_add b (js_mul (js_sub a b) (js_div 0 0)) = NaN"
  by (simp add: js_div_zero js_mul_NaN)

lemma selected_times:
  assumes "interpolateState_loop ss rt 0 = Some (before, after)"
  shows "timestamp before \<le> rt" "rt \<le> timestamp after"
  using loop_Some[OF assms] by (auto simp: brackets_def)

lemma quotient_unit:
  fixes tb ta rt :: int
  assumes "tb \<le> rt" "rt \<le> ta" "tb < ta"
  shows "0 \<le> real_of_int (rt - tb)" "real_of_int (rt - tb) \<le> real_of_int (ta - tb)"
    "0 < real_of_int (ta - tb)"
    "0 \<le> real_of_int (rt - tb) / real_of_int (ta - tb)"
    "real_of_int (rt - tb) / real_of_int (ta - tb) \<le> 1"
  using assms by simp_all

lemma selected_player:
  assumes sel: "interpolateState_loop (serverStates c) (now - INTERPOLATION_DELAY) 0 = Some (before, after)"
    and n: "n < length (snap_players before)"
    and f: "find (\<lambda>p. v_id p = v_id (snap_players before ! n)) (snap_players after) = Some ap"
  shows "r_players (interpolateState now c) ! n =
     \<lparr>r_id = v_id (snap_players before ! n),
      r_x = js_add (v_x (snap_players before ! n))
              (js_mul (js_sub (v_x ap) (v_x (snap_players before ! n)))
                 (js_div (real_of_int (now - INTERPOLATION_DELAY - timestamp before))
                         (real_of_int (timestamp after - timestamp before)))),
      r_y = js_add (v_y (snap_players before ! n))
              (js_mul (js_sub (v_y ap) (v_y (snap_players before ! n)))
                 (js_div (real_of_int (now - INTERPOLATION_DELAY - timestamp before))
                         (real_of_int (timestamp after - timestamp before)))),
      r_score = v_score ap,
      r_color = v_color (snap_players before ! n)\<rparr>"
  using n by (simp add: interpolateState_selected[OF sel] interpolatedPlayer_present[OF f])

lemma selected_absent:
  assumes sel: "interpolateState_loop (serverStates c) (now - INTERPOLATION_DELAY) 0 = Some (before, after)"
    and n: "n < length (snap_players before)"
    and f: "\<forall>p\<in>set (snap_players after). v_id p \<noteq> v_id (snap_players before ! n)"
  shows "r_players (interpolateState now c) ! n = as_rendered (snap_players before ! n)"
  using n by (simp add: interpolateState_selected[OF sel] interpolatedPlayer_absent[OF f])

lemma selected_strict:
  assumes sel: "interpolateState_loop (serverStates c) (now - INTERPOLATION_DELAY) 0 = Some (before, after)"
    and lt: "timestamp before < timestamp after"
    and b: "\<bar>b\<bar> \<le> coord_limit" and a: "\<bar>a\<bar> \<le> coord_limit"
  shows "js_add b (js_mul (js_sub a b)
            (js_div (real_of_int (now - INTERPOLATION_DELAY - timestamp before))
                    (real_of_int (timestamp after - timestamp before)))) =
         Num (fl (b + fl (fl (a - b) *
            fl (real_of_int (now - INTERPOLATION_DELAY - timestamp before) /
                real_of_int (timestamp after - timestamp before)))))"
    and "\<bar>fl (b + fl (fl (a - b) *
            fl (real_of_int (now - INTERPOLATION_DELAY - timestamp before) /
                real_of_int (timestamp after - timestamp before)))) -
          (b + (a - b) * (real_of_int (now - INTERPOLATION_DELAY - timestamp before) /
                real_of_int (timestamp after - timestamp before)))\<bar>
         \<le> 12 * eps * max \<bar>b\<bar> \<bar>a\<bar> + 4 * tiny"
    and "min b a - (8 * eps * max \<bar>b\<bar> \<bar>a\<bar> + 4 * tiny)
         \<le> fl (b + fl (fl (a - b) *
            fl (real_of_int (now - INTERPOLATION_DELAY - timestamp before) /
                real_of_int (timestamp after - timestamp before))))"
    and "fl (b + fl (fl (a - b) *
            fl (real_of_int (now - INTERPOLATION_DELAY - timestamp before) /
                real_of_int (timestamp after - timestamp before))))
         \<le> max b a + (8 * eps * max \<bar>b\<bar> \<bar>a\<bar> + 4 * tiny)"
proof -
  note q = quotient_unit[OF selected_times[OF sel] lt]
  show "js_add b (js_mul (js_sub a b)
            (js_div (real_of_int (now - INTERPOLATION_DELAY - timestamp before))
                    (real_of_int (timestamp after - timestamp before)))) =
         Num (fl (b + fl (fl (a - b) *
            fl (real_of_int (now - INTERPOLATION_DELAY - timestamp before) /
                real_of_int (timestamp after - timestamp before)))))"
    by (rule lerp_strict[OF q(1,2,3) b a])
  show "\<bar>fl (b + fl (fl (a - b) *
            fl (real_of_int (now - INTERPOLATION_DELAY - timestamp before) /
                real_of_int (timestamp after - timestamp before)))) -
          (b + (a - b) * (real_of_int (now - INTERPOLATION_DELAY - timestamp before) /
                real_of_int (timestamp after - timestamp before)))\<bar>
         \<le> 12 * eps * max \<bar>b\<bar> \<bar>a\<bar> + 4 * tiny"
    by (rule lerp_real[OF q(4,5)])
  from fl_unit[OF q(4,5)] have u: "0 \<le> fl (real_of_int (now - INTERPOLATION_DELAY - timestamp before) /
                real_of_int (timestamp after - timestamp before))"
     "fl (real_of_int (now - INTERPOLATION_DELAY - timestamp before) /
                real_of_int (timestamp after - timestamp before)) \<le> 1" by simp_all
  from lerp_near[OF u, of b a]
  show "min b a - (8 * eps * max \<bar>b\<bar> \<bar>a\<bar> + 4 * tiny)
         \<le> fl (b + fl (fl (a - b) *
            fl (real_of_int (now - INTERPOLATION_DELAY - timestamp before) /
                real_of_int (timestamp after - timestamp before))))"
    and "fl (b + fl (fl (a - b) *
            fl (real_of_int (now - INTERPOLATION_DELAY - timestamp before) /
                real_of_int (timestamp after - timestamp before))))
         \<le> max b a + (8 * eps * max \<bar>b\<bar> \<bar>a\<bar> + 4 * tiny)"
    by simp_all
qed

lemma selected_equal:
  assumes sel: "interpolateState_loop (serverStates c) (now - INTERPOLATION_DELAY) 0 = Some (before, after)"
    and eq: "timestamp before = timestamp after"
  shows "js_div (real_of_int (now - INTERPOLATION_DELAY - timestamp before))
                (real_of_int (timestamp after - timestamp before)) = NaN"
proof -
  from selected_times[OF sel] eq have "now - INTERPOLATION_DELAY - timestamp before = 0"
    "timestamp after - timestamp before = 0" by simp_all
  then show ?thesis by (simp add: js_div_zero)
qed

text \<open>
  C5. When the buffer holds an adjacent pair that brackets the render time
  \<open>now - INTERPOLATION_DELAY\<close> (here at index \<open>i\<close>), the scan selects the first such
  pair \<open>(before, after)\<close>, at an index \<open>k \<le> i\<close>, and \<^verbatim>\<open>interpolateState\<close> returns: the
  coins of \<open>after\<close>; one player for each player of \<open>before\<close>, in order. A player of
  \<open>before\<close> with no player of the same id in \<open>after\<close> is returned as it is, at its
  \<open>before\<close> position with its \<open>before\<close> score. A player matched by id in \<open>after\<close>
  keeps its id and colour and takes its score from \<open>after\<close>. With
  \<open>t = (renderTime - before.timestamp) / (after.timestamp - before.timestamp)\<close>, the
  timestamps different and the coordinates of magnitude at most \<open>coord_limit\<close>, its
  position on each axis is the number \<open>before.pos + (after.pos - before.pos) * t\<close>
  evaluated in double precision, each of the four operations rounded; this number
  differs from the real number \<open>before.pos + (after.pos - before.pos) * t\<close> by at most
  \<open>12 * eps * max \<bar>before.pos\<bar> \<bar>after.pos\<bar> + 4 * tiny\<close>. With equal timestamps
  \<^verbatim>\<open>t\<close> is \<^verbatim>\<open>0 / 0\<close> and the position is \<^verbatim>\<open>NaN\<close> on both axes, as the formula gives in
  JavaScript.
\<close>

theorem interpolateState_bracketing_pair:
  assumes "brackets (serverStates c) (now - INTERPOLATION_DELAY) i"
  shows "\<exists>k\<le>i. brackets (serverStates c) (now - INTERPOLATION_DELAY) k \<and>
      (\<forall>j<k. \<not> brackets (serverStates c) (now - INTERPOLATION_DELAY) j) \<and>
      (let before = serverStates c ! k; after = serverStates c ! Suc k;
           t = real_of_int (now - INTERPOLATION_DELAY - timestamp before) /
               real_of_int (timestamp after - timestamp before);
           out = interpolateState now c
       in r_coins out = snap_coins after \<and>
          length (r_players out) = length (snap_players before) \<and>
          (\<forall>n<length (snap_players before).
             (let bp = snap_players before ! n; rp = r_players out ! n in
                ((\<forall>p\<in>set (snap_players after). v_id p \<noteq> v_id bp) \<longrightarrow> rp = as_rendered bp) \<and>
                (\<forall>ap. find (\<lambda>p. v_id p = v_id bp) (snap_players after) = Some ap \<longrightarrow>
                   r_id rp = v_id bp \<and> r_color rp = v_color bp \<and> r_score rp = v_score ap \<and>
                   (timestamp before < timestamp after \<and>
                    \<bar>v_x bp\<bar> \<le> coord_limit \<and> \<bar>v_x ap\<bar> \<le> coord_limit \<longrightarrow>
                      r_x rp = Num (fl (v_x bp + fl (fl (v_x ap - v_x bp) * fl t))) \<and>
                      \<bar>fl (v_x bp + fl (fl (v_x ap - v_x bp) * fl t)) -
                         (v_x bp + (v_x ap - v_x bp) * t)\<bar>
                        \<le> 12 * eps * max \<bar>v_x bp\<bar> \<bar>v_x ap\<bar> + 4 * tiny) \<and>
                   (timestamp before < timestamp after \<and>
                    \<bar>v_y bp\<bar> \<le> coord_limit \<and> \<bar>v_y ap\<bar> \<le> coord_limit \<longrightarrow>
                      r_y rp = Num (fl (v_y bp + fl (fl (v_y ap - v_y bp) * fl t))) \<and>
                      \<bar>fl (v_y bp + fl (fl (v_y ap - v_y bp) * fl t)) -
                         (v_y bp + (v_y ap - v_y bp) * t)\<bar>
                        \<le> 12 * eps * max \<bar>v_y bp\<bar> \<bar>v_y ap\<bar> + 4 * tiny) \<and>
                   (timestamp before = timestamp after \<longrightarrow>
                      r_x rp = NaN \<and> r_y rp = NaN)))))"
proof -
  from loop_first[OF assms] obtain k where k: "k \<le> i" "brackets (serverStates c) (now - INTERPOLATION_DELAY) k"
    "\<forall>j<k. \<not> brackets (serverStates c) (now - INTERPOLATION_DELAY) j"
    and sel: "interpolateState_loop (serverStates c) (now - INTERPOLATION_DELAY) 0 =
       Some (serverStates c ! k, serverStates c ! Suc k)"
    by blast
  define before where "before = serverStates c ! k"
  define after where "after = serverStates c ! Suc k"
  define t where "t = real_of_int (now - INTERPOLATION_DELAY - timestamp before) /
               real_of_int (timestamp after - timestamp before)"
  note sel' = sel[folded before_def after_def]
  note out = interpolateState_selected[OF sel']
  have A: "r_coins (interpolateState now c) = snap_coins after" by (simp add: out)
  have B: "length (r_players (interpolateState now c)) = length (snap_players before)"
    by (simp add: out)
  have C: "r_players (interpolateState now c) ! n = as_rendered (snap_players before ! n)"
    if "n < length (snap_players before)"
      "\<forall>p\<in>set (snap_players after). v_id p \<noteq> v_id (snap_players before ! n)" for n
    using selected_absent[OF sel' that] .
  have D: "r_id (r_players (interpolateState now c) ! n) = v_id (snap_players before ! n) \<and>
           r_color (r_players (interpolateState now c) ! n) = v_color (snap_players before ! n) \<and>
           r_score (r_players (interpolateState now c) ! n) = v_score ap"
    if "n < length (snap_players before)"
      "find (\<lambda>p. v_id p = v_id (snap_players before ! n)) (snap_players after) = Some ap" for n ap
    by (simp add: selected_player[OF sel' that])
  have X: "r_x (r_players (interpolateState now c) ! n) =
             Num (fl (v_x (snap_players before ! n) +
                      fl (fl (v_x ap - v_x (snap_players before ! n)) * fl t))) \<and>
           \<bar>fl (v_x (snap_players before ! n) +
                      fl (fl (v_x ap - v_x (snap_players before ! n)) * fl t)) -
              (v_x (snap_players before ! n) + (v_x ap - v_x (snap_players before ! n)) * t)\<bar>
             \<le> 12 * eps * max \<bar>v_x (snap_players before ! n)\<bar> \<bar>v_x ap\<bar> + 4 * tiny"
    if "n < length (snap_players before)"
      "find (\<lambda>p. v_id p = v_id (snap_players before ! n)) (snap_players after) = Some ap"
      "timestamp before < timestamp after"
      "\<bar>v_x (snap_players before ! n)\<bar> \<le> coord_limit" "\<bar>v_x ap\<bar> \<le> coord_limit" for n ap
    using selected_strict(1,2)[OF sel' that(3,4,5)]
    by (simp add: selected_player[OF sel' that(1,2)] t_def)
  have Y: "r_y (r_players (interpolateState now c) ! n) =
             Num (fl (v_y (snap_players before ! n) +
                      fl (fl (v_y ap - v_y (snap_players before ! n)) * fl t))) \<and>
           \<bar>fl (v_y (snap_players before ! n) +
                      fl (fl (v_y ap - v_y (snap_players before ! n)) * fl t)) -
              (v_y (snap_players before ! n) + (v_y ap - v_y (snap_players before ! n)) * t)\<bar>
             \<le> 12 * eps * max \<bar>v_y (snap_players before ! n)\<bar> \<bar>v_y ap\<bar> + 4 * tiny"
    if "n < length (snap_players before)"
      "find (\<lambda>p. v_id p = v_id (snap_players before ! n)) (snap_players after) = Some ap"
      "timestamp before < timestamp after"
      "\<bar>v_y (snap_players before ! n)\<bar> \<le> coord_limit" "\<bar>v_y ap\<bar> \<le> coord_limit" for n ap
    using selected_strict(1,2)[OF sel' that(3,4,5)]
    by (simp add: selected_player[OF sel' that(1,2)] t_def)
  have E: "r_x (r_players (interpolateState now c) ! n) = NaN \<and>
           r_y (r_players (interpolateState now c) ! n) = NaN"
    if "n < length (snap_players before)"
      "find (\<lambda>p. v_id p = v_id (snap_players before ! n)) (snap_players after) = Some ap"
      "timestamp before = timestamp after" for n ap
    using selected_equal[OF sel' that(3)]
    by (simp add: selected_player[OF sel' that(1,2)] js_mul_NaN)
  have "let out = interpolateState now c
       in r_coins out = snap_coins after \<and>
          length (r_players out) = length (snap_players before) \<and>
          (\<forall>n<length (snap_players before).
             (let bp = snap_players before ! n; rp = r_players out ! n in
                ((\<forall>p\<in>set (snap_players after). v_id p \<noteq> v_id bp) \<longrightarrow> rp = as_rendered bp) \<and>
                (\<forall>ap. find (\<lambda>p. v_id p = v_id bp) (snap_players after) = Some ap \<longrightarrow>
                   r_id rp = v_id bp \<and> r_color rp = v_color bp \<and> r_score rp = v_score ap \<and>
                   (timestamp before < timestamp after \<and>
                    \<bar>v_x bp\<bar> \<le> coord_limit \<and> \<bar>v_x ap\<bar> \<le> coord_limit \<longrightarrow>
                      r_x rp = Num (fl (v_x bp + fl (fl (v_x ap - v_x bp) * fl t))) \<and>
                      \<bar>fl (v_x bp + fl (fl (v_x ap - v_x bp) * fl t)) -
                         (v_x bp + (v_x ap - v_x bp) * t)\<bar>
                        \<le> 12 * eps * max \<bar>v_x bp\<bar> \<bar>v_x ap\<bar> + 4 * tiny) \<and>
                   (timestamp before < timestamp after \<and>
                    \<bar>v_y bp\<bar> \<le> coord_limit \<and> \<bar>v_y ap\<bar> \<le> coord_limit \<longrightarrow>
                      r_y rp = Num (fl (v_y bp + fl (fl (v_y ap - v_y bp) * fl t))) \<and>
                      \<bar>fl (v_y bp + fl (fl (v_y ap - v_y bp) * fl t)) -
                         (v_y bp + (v_y ap - v_y bp) * t)\<bar>
                        \<le> 12 * eps * max \<bar>v_y bp\<bar> \<bar>v_y ap\<bar> + 4 * tiny) \<and>
                   (timestamp before = timestamp after \<longrightarrow>
                      r_x rp = NaN \<and> r_y rp = NaN))))"
    unfolding Let_def using A B C D X Y E by blast
  then have "let before = serverStates c ! k; after = serverStates c ! Suc k;
           t = real_of_int (now - INTERPOLATION_DELAY - timestamp before) /
               real_of_int (timestamp after - timestamp before);
           out = interpolateState now c
       in r_coins out = snap_coins after \<and>
          length (r_players out) = length (snap_players before) \<and>
          (\<forall>n<length (snap_players before).
             (let bp = snap_players before ! n; rp = r_players out ! n in
                ((\<forall>p\<in>set (snap_players after). v_id p \<noteq> v_id bp) \<longrightarrow> rp = as_rendered bp) \<and>
                (\<forall>ap. find (\<lambda>p. v_id p = v_id bp) (snap_players after) = Some ap \<longrightarrow>
                   r_id rp = v_id bp \<and> r_color rp = v_color bp \<and> r_score rp = v_score ap \<and>
                   (timestamp before < timestamp after \<and>
                    \<bar>v_x bp\<bar> \<le> coord_limit \<and> \<bar>v_x ap\<bar> \<le> coord_limit \<longrightarrow>
                      r_x rp = Num (fl (v_x bp + fl (fl (v_x ap - v_x bp) * fl t))) \<and>
                      \<bar>fl (v_x bp + fl (fl (v_x ap - v_x bp) * fl t)) -
                         (v_x bp + (v_x ap - v_x bp) * t)\<bar>
                        \<le> 12 * eps * max \<bar>v_x bp\<bar> \<bar>v_x ap\<bar> + 4 * tiny) \<and>
                   (timestamp before < timestamp after \<and>
                    \<bar>v_y bp\<bar> \<le> coord_limit \<and> \<bar>v_y ap\<bar> \<le> coord_limit \<longrightarrow>
                      r_y rp = Num (fl (v_y bp + fl (fl (v_y ap - v_y bp) * fl t))) \<and>
                      \<bar>fl (v_y bp + fl (fl (v_y ap - v_y bp) * fl t)) -
                         (v_y bp + (v_y ap - v_y bp) * t)\<bar>
                        \<le> 12 * eps * max \<bar>v_y bp\<bar> \<bar>v_y ap\<bar> + 4 * tiny) \<and>
                   (timestamp before = timestamp after \<longrightarrow>
                      r_x rp = NaN \<and> r_y rp = NaN))))"
    unfolding before_def after_def t_def Let_def .
  with k(1,2,3) show ?thesis by blast
qed

lemma coord_limit_large: "1048576 \<le> coord_limit"
proof -
  have "(2::real) powi 20 \<le> 2 powi 1000" by (rule power_int_increasing) simp_all
  moreover have "(2::real) powi 20 = 2 ^ 20" by (rule power_int_numeral)
  ultimately show ?thesis unfolding coord_limit_def by simp
qed

lemma fl_halves: "\<bar>k\<bar> < 2 ^ 53 \<Longrightarrow> fl (real_of_int k / 2) = real_of_int k / 2"
  using fl_fixed[of k "- 1"] by simp

text \<open>
  The example of C5: a snapshot at 0 with player 1 at (0, 0) and one at 100 with
  player 1 at (10, 0), sampled at \<open>now = 150\<close>, that is at render time 50. Player 1 is
  returned at (5, 0) with the later score; player 2, who is not in the later snapshot,
  is returned at its earlier position with its earlier score; the coins are the later
  ones. And a player who moves from (8, 6) to (12, 9) between the snapshots at 0 and
  100: at render time 50 it is returned at (10, 7.5) with the later score.
\<close>

theorem interpolateState_bracketing_pair_witness:
  "brackets (serverStates example_client) (150 - INTERPOLATION_DELAY) 0
   \<and> r_x (r_players (interpolateState 150 example_client) ! 0) = Num 5
   \<and> r_y (r_players (interpolateState 150 example_client) ! 0) = Num 0
   \<and> r_score (r_players (interpolateState 150 example_client) ! 0) = 1
   \<and> r_players (interpolateState 150 example_client) ! 1 =
       \<lparr>r_id = 2, r_x = Num 40, r_y = Num 60, r_score = 3, r_color = ''blue''\<rparr>
   \<and> r_coins (interpolateState 150 example_client) = [\<lparr>c_id = 7, c_x = 300, c_y = 200\<rparr>]
   \<and> brackets (serverStates moving_client) (150 - INTERPOLATION_DELAY) 0
   \<and> snap_players (serverStates moving_client ! 0) =
       [\<lparr>v_id = 3, v_x = 8, v_y = 6, v_score = 2, v_color = ''green''\<rparr>]
   \<and> snap_players (serverStates moving_client ! 1) =
       [\<lparr>v_id = 3, v_x = 12, v_y = 9, v_score = 4, v_color = ''green''\<rparr>]
   \<and> r_players (interpolateState 150 moving_client) =
       [\<lparr>r_id = 3, r_x = Num 10, r_y = Num (15 / 2), r_score = 4, r_color = ''green''\<rparr>]"
proof -
  let ?b = "serverStates example_client ! 0"
  let ?a = "serverStates example_client ! Suc 0"
  let ?ap = "\<lparr>v_id = 1, v_x = 10, v_y = 0, v_score = 1, v_color = ''red''\<rparr>"
  let ?out = "interpolateState 150 example_client"
  let ?t = "real_of_int (150 - INTERPOLATION_DELAY - timestamp ?b) /
            real_of_int (timestamp ?a - timestamp ?b)"
  have F: "fl (1 / 2) = 1 / 2" "fl (3 / 2) = 3 / 2" "fl (15 / 2) = 15 / 2"
    using fl_halves[of 1] fl_halves[of 3] fl_halves[of 15] by simp_all
  have h: "brackets (serverStates example_client) (150 - INTERPOLATION_DELAY) 0"
    by (simp add: brackets_def example_client_def example_before_def example_after_def
        INTERPOLATION_DELAY_def)
  from interpolateState_bracketing_pair[OF h] obtain k where "k \<le> 0" and
    "let before = serverStates example_client ! k; after = serverStates example_client ! Suc k;
         t = real_of_int (150 - INTERPOLATION_DELAY - timestamp before) /
             real_of_int (timestamp after - timestamp before);
         out = interpolateState 150 example_client
     in r_coins out = snap_coins after \<and>
        length (r_players out) = length (snap_players before) \<and>
        (\<forall>n<length (snap_players before).
           (let bp = snap_players before ! n; rp = r_players out ! n in
              ((\<forall>p\<in>set (snap_players after). v_id p \<noteq> v_id bp) \<longrightarrow> rp = as_rendered bp) \<and>
              (\<forall>ap. find (\<lambda>p. v_id p = v_id bp) (snap_players after) = Some ap \<longrightarrow>
                 r_id rp = v_id bp \<and> r_color rp = v_color bp \<and> r_score rp = v_score ap \<and>
                 (timestamp before < timestamp after \<and>
                  \<bar>v_x bp\<bar> \<le> coord_limit \<and> \<bar>v_x ap\<bar> \<le> coord_limit \<longrightarrow>
                    r_x rp = Num (fl (v_x bp + fl (fl (v_x ap - v_x bp) * fl t))) \<and>
                    \<bar>fl (v_x bp + fl (fl (v_x ap - v_x bp) * fl t)) -
                       (v_x bp + (v_x ap - v_x bp) * t)\<bar>
                      \<le> 12 * eps * max \<bar>v_x bp\<bar> \<bar>v_x ap\<bar> + 4 * tiny) \<and>
                 (timestamp before < timestamp after \<and>
                  \<bar>v_y bp\<bar> \<le> coord_limit \<and> \<bar>v_y ap\<bar> \<le> coord_limit \<longrightarrow>
                    r_y rp = Num (fl (v_y bp + fl (fl (v_y ap - v_y bp) * fl t))) \<and>
                    \<bar>fl (v_y bp + fl (fl (v_y ap - v_y bp) * fl t)) -
                       (v_y bp + (v_y ap - v_y bp) * t)\<bar>
                      \<le> 12 * eps * max \<bar>v_y bp\<bar> \<bar>v_y ap\<bar> + 4 * tiny) \<and>
                 (timestamp before = timestamp after \<longrightarrow>
                    r_x rp = NaN \<and> r_y rp = NaN))))"
    by blast
  then have B: "r_coins ?out = snap_coins ?a \<and>
        length (r_players ?out) = length (snap_players ?b) \<and>
        (\<forall>n<length (snap_players ?b).
              ((\<forall>p\<in>set (snap_players ?a). v_id p \<noteq> v_id (snap_players ?b ! n)) \<longrightarrow>
                 r_players ?out ! n = as_rendered (snap_players ?b ! n)) \<and>
              (\<forall>ap. find (\<lambda>p. v_id p = v_id (snap_players ?b ! n)) (snap_players ?a) = Some ap \<longrightarrow>
                 r_id (r_players ?out ! n) = v_id (snap_players ?b ! n) \<and>
                 r_color (r_players ?out ! n) = v_color (snap_players ?b ! n) \<and>
                 r_score (r_players ?out ! n) = v_score ap \<and>
                 (timestamp ?b < timestamp ?a \<and>
                  \<bar>v_x (snap_players ?b ! n)\<bar> \<le> coord_limit \<and> \<bar>v_x ap\<bar> \<le> coord_limit \<longrightarrow>
                    r_x (r_players ?out ! n) =
                      Num (fl (v_x (snap_players ?b ! n) +
                               fl (fl (v_x ap - v_x (snap_players ?b ! n)) * fl ?t)))) \<and>
                 (timestamp ?b < timestamp ?a \<and>
                  \<bar>v_y (snap_players ?b ! n)\<bar> \<le> coord_limit \<and> \<bar>v_y ap\<bar> \<le> coord_limit \<longrightarrow>
                    r_y (r_players ?out ! n) =
                      Num (fl (v_y (snap_players ?b ! n) +
                               fl (fl (v_y ap - v_y (snap_players ?b ! n)) * fl ?t))))))"
    unfolding Let_def by simp
  have lt: "timestamp ?b < timestamp ?a"
    by (simp add: example_client_def example_before_def example_after_def)
  have n0: "0 < length (snap_players ?b)" "1 < length (snap_players ?b)"
    by (simp_all add: example_client_def example_before_def)
  have f0: "find (\<lambda>p. v_id p = v_id (snap_players ?b ! 0)) (snap_players ?a) = Some ?ap"
    by (simp add: example_client_def example_before_def example_after_def)
  have f1: "\<forall>p\<in>set (snap_players ?a). v_id p \<noteq> v_id (snap_players ?b ! 1)"
    by (simp add: example_client_def example_before_def example_after_def)
  have L: "\<bar>v_x (snap_players ?b ! 0)\<bar> \<le> coord_limit" "\<bar>v_x ?ap\<bar> \<le> coord_limit"
    "\<bar>v_y (snap_players ?b ! 0)\<bar> \<le> coord_limit" "\<bar>v_y ?ap\<bar> \<le> coord_limit"
    using coord_limit_large by (simp_all add: example_client_def example_before_def)
  from B n0(1) f0 lt L have
    "r_x (r_players ?out ! 0) =
       Num (fl (v_x (snap_players ?b ! 0) + fl (fl (v_x ?ap - v_x (snap_players ?b ! 0)) * fl ?t)))"
    "r_y (r_players ?out ! 0) =
       Num (fl (v_y (snap_players ?b ! 0) + fl (fl (v_y ?ap - v_y (snap_players ?b ! 0)) * fl ?t)))"
    "r_score (r_players ?out ! 0) = v_score ?ap"
    by blast+
  then have a0: "r_x (r_players ?out ! 0) = Num 5" "r_y (r_players ?out ! 0) = Num 0"
    "r_score (r_players ?out ! 0) = 1"
    by (simp_all add: example_client_def example_before_def example_after_def
        INTERPOLATION_DELAY_def F fl_numeral)
  from B n0(2) f1 have "r_players ?out ! 1 = as_rendered (snap_players ?b ! 1)" by blast
  then have a1: "r_players ?out ! 1 =
      \<lparr>r_id = 2, r_x = Num 40, r_y = Num 60, r_score = 3, r_color = ''blue''\<rparr>"
    by (simp add: example_client_def example_before_def as_rendered_def)
  from B have a2: "r_coins ?out = [\<lparr>c_id = 7, c_x = 300, c_y = 200\<rparr>]"
    by (simp add: example_client_def example_after_def)
  let ?mb = "serverStates moving_client ! 0"
  let ?ma = "serverStates moving_client ! Suc 0"
  let ?mp = "\<lparr>v_id = 3, v_x = 12, v_y = 9, v_score = 4, v_color = ''green''\<rparr>"
  let ?mout = "interpolateState 150 moving_client"
  let ?mt = "real_of_int (150 - INTERPOLATION_DELAY - timestamp ?mb) /
             real_of_int (timestamp ?ma - timestamp ?mb)"
  have g: "brackets (serverStates moving_client) (150 - INTERPOLATION_DELAY) 0"
    by (simp add: brackets_def moving_client_def moving_before_def moving_after_def
        INTERPOLATION_DELAY_def)
  from interpolateState_bracketing_pair[OF g] obtain j where "j \<le> 0" and
    "let before = serverStates moving_client ! j; after = serverStates moving_client ! Suc j;
         t = real_of_int (150 - INTERPOLATION_DELAY - timestamp before) /
             real_of_int (timestamp after - timestamp before);
         out = interpolateState 150 moving_client
     in r_coins out = snap_coins after \<and>
        length (r_players out) = length (snap_players before) \<and>
        (\<forall>n<length (snap_players before).
           (let bp = snap_players before ! n; rp = r_players out ! n in
              ((\<forall>p\<in>set (snap_players after). v_id p \<noteq> v_id bp) \<longrightarrow> rp = as_rendered bp) \<and>
              (\<forall>ap. find (\<lambda>p. v_id p = v_id bp) (snap_players after) = Some ap \<longrightarrow>
                 r_id rp = v_id bp \<and> r_color rp = v_color bp \<and> r_score rp = v_score ap \<and>
                 (timestamp before < timestamp after \<and>
                  \<bar>v_x bp\<bar> \<le> coord_limit \<and> \<bar>v_x ap\<bar> \<le> coord_limit \<longrightarrow>
                    r_x rp = Num (fl (v_x bp + fl (fl (v_x ap - v_x bp) * fl t))) \<and>
                    \<bar>fl (v_x bp + fl (fl (v_x ap - v_x bp) * fl t)) -
                       (v_x bp + (v_x ap - v_x bp) * t)\<bar>
                      \<le> 12 * eps * max \<bar>v_x bp\<bar> \<bar>v_x ap\<bar> + 4 * tiny) \<and>
                 (timestamp before < timestamp after \<and>
                  \<bar>v_y bp\<bar> \<le> coord_limit \<and> \<bar>v_y ap\<bar> \<le> coord_limit \<longrightarrow>
                    r_y rp = Num (fl (v_y bp + fl (fl (v_y ap - v_y bp) * fl t))) \<and>
                    \<bar>fl (v_y bp + fl (fl (v_y ap - v_y bp) * fl t)) -
                       (v_y bp + (v_y ap - v_y bp) * t)\<bar>
                      \<le> 12 * eps * max \<bar>v_y bp\<bar> \<bar>v_y ap\<bar> + 4 * tiny) \<and>
                 (timestamp before = timestamp after \<longrightarrow>
                    r_x rp = NaN \<and> r_y rp = NaN))))"
    by blast
  then have M: "length (r_players ?mout) = length (snap_players ?mb) \<and>
        (\<forall>n<length (snap_players ?mb).
              (\<forall>ap. find (\<lambda>p. v_id p = v_id (snap_players ?mb ! n)) (snap_players ?ma) = Some ap \<longrightarrow>
                 r_id (r_players ?mout ! n) = v_id (snap_players ?mb ! n) \<and>
                 r_color (r_players ?mout ! n) = v_color (snap_players ?mb ! n) \<and>
                 r_score (r_players ?mout ! n) = v_score ap \<and>
                 (timestamp ?mb < timestamp ?ma \<and>
                  \<bar>v_x (snap_players ?mb ! n)\<bar> \<le> coord_limit \<and> \<bar>v_x ap\<bar> \<le> coord_limit \<longrightarrow>
                    r_x (r_players ?mout ! n) =
                      Num (fl (v_x (snap_players ?mb ! n) +
                               fl (fl (v_x ap - v_x (snap_players ?mb ! n)) * fl ?mt)))) \<and>
                 (timestamp ?mb < timestamp ?ma \<and>
                  \<bar>v_y (snap_players ?mb ! n)\<bar> \<le> coord_limit \<and> \<bar>v_y ap\<bar> \<le> coord_limit \<longrightarrow>
                    r_y (r_players ?mout ! n) =
                      Num (fl (v_y (snap_players ?mb ! n) +
                               fl (fl (v_y ap - v_y (snap_players ?mb ! n)) * fl ?mt))))))"
    unfolding Let_def by simp
  have mlt: "timestamp ?mb < timestamp ?ma"
    by (simp add: moving_client_def moving_before_def moving_after_def)
  have mn: "0 < length (snap_players ?mb)" by (simp add: moving_client_def moving_before_def)
  have mf: "find (\<lambda>p. v_id p = v_id (snap_players ?mb ! 0)) (snap_players ?ma) = Some ?mp"
    by (simp add: moving_client_def moving_before_def moving_after_def)
  have mL: "\<bar>v_x (snap_players ?mb ! 0)\<bar> \<le> coord_limit" "\<bar>v_x ?mp\<bar> \<le> coord_limit"
    "\<bar>v_y (snap_players ?mb ! 0)\<bar> \<le> coord_limit" "\<bar>v_y ?mp\<bar> \<le> coord_limit"
    using coord_limit_large by (simp_all add: moving_client_def moving_before_def)
  from M mn mf mlt mL have
    "r_x (r_players ?mout ! 0) =
       Num (fl (v_x (snap_players ?mb ! 0) + fl (fl (v_x ?mp - v_x (snap_players ?mb ! 0)) * fl ?mt)))"
    "r_y (r_players ?mout ! 0) =
       Num (fl (v_y (snap_players ?mb ! 0) + fl (fl (v_y ?mp - v_y (snap_players ?mb ! 0)) * fl ?mt)))"
    "r_score (r_players ?mout ! 0) = v_score ?mp"
    "r_id (r_players ?mout ! 0) = v_id (snap_players ?mb ! 0)"
    "r_color (r_players ?mout ! 0) = v_color (snap_players ?mb ! 0)"
    by blast+
  then have b: "r_x (r_players ?mout ! 0) = Num 10" "r_y (r_players ?mout ! 0) = Num (15 / 2)"
    "r_score (r_players ?mout ! 0) = 4" "r_id (r_players ?mout ! 0) = 3"
    "r_color (r_players ?mout ! 0) = ''green''"
    by (simp_all add: moving_client_def moving_before_def moving_after_def
        INTERPOLATION_DELAY_def F fl_numeral)
  from M have "length (r_players ?mout) = 1"
    by (simp add: moving_client_def moving_before_def)
  then have "r_players ?mout = [r_players ?mout ! 0]"
    by (cases "r_players ?mout") simp_all
  moreover have "r_players ?mout ! 0 =
      \<lparr>r_id = 3, r_x = Num 10, r_y = Num (15 / 2), r_score = 4, r_color = ''green''\<rparr>"
    using b by (cases "r_players ?mout ! 0") simp
  ultimately have c: "r_players ?mout =
       [\<lparr>r_id = 3, r_x = Num 10, r_y = Num (15 / 2), r_score = 4, r_color = ''green''\<rparr>]"
    by simp
  have d: "snap_players (serverStates moving_client ! 0) =
       [\<lparr>v_id = 3, v_x = 8, v_y = 6, v_score = 2, v_color = ''green''\<rparr>]"
    "snap_players (serverStates moving_client ! 1) =
       [\<lparr>v_id = 3, v_x = 12, v_y = 9, v_score = 4, v_color = ''green''\<rparr>]"
    by (simp_all add: moving_client_def moving_before_def moving_after_def)
  from h g a0 a1 a2 c d show ?thesis by simp
qed

text \<open>
  C10 (amended). For the pair \<open>(before, after)\<close> the scan selects,
  \<open>before.timestamp \<le> after.timestamp\<close>. If the inequality is strict, the division
  is a division by a non-zero number, \<^verbatim>\<open>t\<close> is a number in \<open>[0, 1]\<close>, and every
  interpolated coordinate (of a player whose coordinates have magnitude at most
  \<open>coord_limit\<close>) is a finite number that lies between the coordinate in \<open>before\<close>
  and the one in \<open>after\<close> up to the rounding error
  \<open>8 * eps * max \<bar>before.pos\<bar> \<bar>after.pos\<bar> + 4 * tiny\<close>. If the two timestamps
  are equal, the unguarded division is \<^verbatim>\<open>0 / 0\<close>: \<^verbatim>\<open>t\<close> is \<^verbatim>\<open>NaN\<close>, and so are both
  coordinates of every player matched in \<open>after\<close>.
\<close>

theorem interpolateState_near_endpoints:
  assumes "interpolateState_loop (serverStates c) (now - INTERPOLATION_DELAY) 0 = Some (before, after)"
  shows "timestamp before \<le> timestamp after \<and>
     (let t = js_div (real_of_int (now - INTERPOLATION_DELAY - timestamp before))
                     (real_of_int (timestamp after - timestamp before));
          out = interpolateState now c
      in (timestamp before < timestamp after \<longrightarrow>
            (\<exists>r. t = Num r \<and> 0 \<le> r \<and> r \<le> 1) \<and>
            (\<forall>n<length (snap_players before).
               \<forall>ap. find (\<lambda>p. v_id p = v_id (snap_players before ! n)) (snap_players after) = Some ap \<longrightarrow>
                 (let bp = snap_players before ! n; rp = r_players out ! n in
                    (\<bar>v_x bp\<bar> \<le> coord_limit \<and> \<bar>v_x ap\<bar> \<le> coord_limit \<longrightarrow>
                       (\<exists>x. r_x rp = Num x \<and>
                          min (v_x bp) (v_x ap) - (8 * eps * max \<bar>v_x bp\<bar> \<bar>v_x ap\<bar> + 4 * tiny) \<le> x \<and>
                          x \<le> max (v_x bp) (v_x ap) + (8 * eps * max \<bar>v_x bp\<bar> \<bar>v_x ap\<bar> + 4 * tiny))) \<and>
                    (\<bar>v_y bp\<bar> \<le> coord_limit \<and> \<bar>v_y ap\<bar> \<le> coord_limit \<longrightarrow>
                       (\<exists>y. r_y rp = Num y \<and>
                          min (v_y bp) (v_y ap) - (8 * eps * max \<bar>v_y bp\<bar> \<bar>v_y ap\<bar> + 4 * tiny) \<le> y \<and>
                          y \<le> max (v_y bp) (v_y ap) + (8 * eps * max \<bar>v_y bp\<bar> \<bar>v_y ap\<bar> + 4 * tiny)))))) \<and>
         (timestamp before = timestamp after \<longrightarrow>
            t = NaN \<and>
            (\<forall>n<length (snap_players before).
               \<forall>ap. find (\<lambda>p. v_id p = v_id (snap_players before ! n)) (snap_players after) = Some ap \<longrightarrow>
                 r_x (r_players out ! n) = NaN \<and> r_y (r_players out ! n) = NaN)))"
proof -
  note ord = selected_times[OF assms]
  define t0 where "t0 = js_div (real_of_int (now - INTERPOLATION_DELAY - timestamp before))
                               (real_of_int (timestamp after - timestamp before))"
  have A: "timestamp before \<le> timestamp after" using ord by simp
  have T: "\<exists>r. t0 = Num r \<and> 0 \<le> r \<and> r \<le> 1" if lt: "timestamp before < timestamp after"
  proof -
    note q = quotient_unit[OF ord lt]
    from js_div_unit[OF q(1,2,3)] show ?thesis unfolding t0_def by blast
  qed
  have N: "t0 = NaN" if "timestamp before = timestamp after"
    unfolding t0_def by (rule selected_equal[OF assms that])
  have X: "\<exists>x. r_x (r_players (interpolateState now c) ! n) = Num x \<and>
             min (v_x (snap_players before ! n)) (v_x ap)
               - (8 * eps * max \<bar>v_x (snap_players before ! n)\<bar> \<bar>v_x ap\<bar> + 4 * tiny) \<le> x \<and>
             x \<le> max (v_x (snap_players before ! n)) (v_x ap)
               + (8 * eps * max \<bar>v_x (snap_players before ! n)\<bar> \<bar>v_x ap\<bar> + 4 * tiny)"
    if "timestamp before < timestamp after" "n < length (snap_players before)"
      "find (\<lambda>p. v_id p = v_id (snap_players before ! n)) (snap_players after) = Some ap"
      "\<bar>v_x (snap_players before ! n)\<bar> \<le> coord_limit" "\<bar>v_x ap\<bar> \<le> coord_limit" for n ap
  proof -
    note s = selected_strict(1,3,4)[OF assms that(1,4,5)]
    have "r_x (r_players (interpolateState now c) ! n) =
       js_add (v_x (snap_players before ! n))
              (js_mul (js_sub (v_x ap) (v_x (snap_players before ! n)))
                 (js_div (real_of_int (now - INTERPOLATION_DELAY - timestamp before))
                         (real_of_int (timestamp after - timestamp before))))"
      by (simp only: selected_player[OF assms that(2,3)] render_player.simps)
    with s show ?thesis by (simp only:) blast
  qed
  have Y: "\<exists>y. r_y (r_players (interpolateState now c) ! n) = Num y \<and>
             min (v_y (snap_players before ! n)) (v_y ap)
               - (8 * eps * max \<bar>v_y (snap_players before ! n)\<bar> \<bar>v_y ap\<bar> + 4 * tiny) \<le> y \<and>
             y \<le> max (v_y (snap_players before ! n)) (v_y ap)
               + (8 * eps * max \<bar>v_y (snap_players before ! n)\<bar> \<bar>v_y ap\<bar> + 4 * tiny)"
    if "timestamp before < timestamp after" "n < length (snap_players before)"
      "find (\<lambda>p. v_id p = v_id (snap_players before ! n)) (snap_players after) = Some ap"
      "\<bar>v_y (snap_players before ! n)\<bar> \<le> coord_limit" "\<bar>v_y ap\<bar> \<le> coord_limit" for n ap
  proof -
    note s = selected_strict(1,3,4)[OF assms that(1,4,5)]
    have "r_y (r_players (interpolateState now c) ! n) =
       js_add (v_y (snap_players before ! n))
              (js_mul (js_sub (v_y ap) (v_y (snap_players before ! n)))
                 (js_div (real_of_int (now - INTERPOLATION_DELAY - timestamp before))
                         (real_of_int (timestamp after - timestamp before))))"
      by (simp only: selected_player[OF assms that(2,3)] render_player.simps)
    with s show ?thesis by (simp only:) blast
  qed
  have C: "r_x (r_players (interpolateState now c) ! n) = NaN \<and>
           r_y (r_players (interpolateState now c) ! n) = NaN"
    if eq: "timestamp before = timestamp after" and n: "n < length (snap_players before)"
      and f: "find (\<lambda>p. v_id p = v_id (snap_players before ! n)) (snap_players after) = Some ap"
    for n ap
    using selected_equal[OF assms eq]
    by (simp add: selected_player[OF assms n f] js_mul_NaN)
  show ?thesis
    unfolding Let_def t0_def[symmetric] using A T N X Y C by blast
qed

lemma selected_value:
  assumes sel: "interpolateState_loop (serverStates c) (now - INTERPOLATION_DELAY) 0 = Some (before, after)"
    and n: "n < length (snap_players before)"
    and f: "find (\<lambda>p. v_id p = v_id (snap_players before ! n)) (snap_players after) = Some ap"
    and lt: "timestamp before < timestamp after"
  shows "\<bar>v_x (snap_players before ! n)\<bar> \<le> coord_limit \<Longrightarrow> \<bar>v_x ap\<bar> \<le> coord_limit \<Longrightarrow>
         r_x (r_players (interpolateState now c) ! n) =
           Num (fl (v_x (snap_players before ! n) +
                    fl (fl (v_x ap - v_x (snap_players before ! n)) *
                        fl (real_of_int (now - INTERPOLATION_DELAY - timestamp before) /
                            real_of_int (timestamp after - timestamp before)))))"
    and "\<bar>v_y (snap_players before ! n)\<bar> \<le> coord_limit \<Longrightarrow> \<bar>v_y ap\<bar> \<le> coord_limit \<Longrightarrow>
         r_y (r_players (interpolateState now c) ! n) =
           Num (fl (v_y (snap_players before ! n) +
                    fl (fl (v_y ap - v_y (snap_players before ! n)) *
                        fl (real_of_int (now - INTERPOLATION_DELAY - timestamp before) /
                            real_of_int (timestamp after - timestamp before)))))"
proof -
  note p = selected_player[OF sel n f]
  show "r_x (r_players (interpolateState now c) ! n) =
           Num (fl (v_x (snap_players before ! n) +
                    fl (fl (v_x ap - v_x (snap_players before ! n)) *
                        fl (real_of_int (now - INTERPOLATION_DELAY - timestamp before) /
                            real_of_int (timestamp after - timestamp before)))))"
    if "\<bar>v_x (snap_players before ! n)\<bar> \<le> coord_limit" "\<bar>v_x ap\<bar> \<le> coord_limit"
    using selected_strict(1)[OF sel lt that] by (simp only: p render_player.simps)
  show "r_y (r_players (interpolateState now c) ! n) =
           Num (fl (v_y (snap_players before ! n) +
                    fl (fl (v_y ap - v_y (snap_players before ! n)) *
                        fl (real_of_int (now - INTERPOLATION_DELAY - timestamp before) /
                            real_of_int (timestamp after - timestamp before)))))"
    if "\<bar>v_y (snap_players before ! n)\<bar> \<le> coord_limit" "\<bar>v_y ap\<bar> \<le> coord_limit"
    using selected_strict(1)[OF sel lt that] by (simp only: p render_player.simps)
qed

lemma rounding_selected:
  "interpolateState_loop (serverStates rounding_client) (200 - INTERPOLATION_DELAY) 0
     = Some (rounding_before, rounding_after)"
  by (simp add: interpolateState_loop.simps rounding_client_def rounding_before_def
      rounding_after_def INTERPOLATION_DELAY_def)

lemma fl_difference:
  "fl (- (21617278211378379 / 36028797018963968)) = - (5404319552844595 / 9007199254740992)"
proof -
  let ?x = "- (21617278211378379 / 36028797018963968) :: real"
  have p: "(2::real) powi (- 1) = 1 / 2" "(2::real) powi (- 1 + 1) = 1"
    "(2::real) powi (- 1 - 52) = 1 / 9007199254740992"
    by (simp_all add: power_int_minus_divide)
  have c1: "2 powi (- 1) \<le> \<bar>?x\<bar>" unfolding p by simp
  have c2: "\<bar>?x\<bar> < 2 powi (- 1 + 1)" unfolding p by simp
  have c3: "- 1022 \<le> (- 1 :: int)" by simp
  have q: "?x / 2 powi (- 1 - 52) = - 21617278211378379 / 4" unfolding p by simp
  have r: "round_even (- 21617278211378379 / 4) = - 5404319552844595"
    by (simp add: round_even_def Let_def)
  have "fl ?x = of_int (round_even (?x / 2 powi (- 1 - 52))) * 2 powi (- 1 - 52)"
    by (rule fl_eval[OF c1 c2 c3])
  also have "\<dots> = of_int (- 5404319552844595) * (1 / 9007199254740992)"
    by (simp only: q r, simp only: p)
  also have "\<dots> = - (5404319552844595 / 9007199254740992)" by simp
  finally show ?thesis .
qed

lemma fl_dyadic:
  "\<bar>k\<bar> < 2 ^ 53 \<Longrightarrow> fl (real_of_int k / 9007199254740992) = real_of_int k / 9007199254740992"
  using fl_fixed[of k "- 53"] by (simp add: power_int_minus_divide)

lemma rounding_value:
  "fl (3152519739159347 / 4503599627370496 +
       fl (fl (3602879701896397 / 36028797018963968 - 3152519739159347 / 4503599627370496) *
           fl (real_of_int (200 - 100 - 0) / real_of_int (100 - 0))))
     = 900719925474099 / 9007199254740992"
proof -
  have t: "real_of_int (200 - 100 - 0) / real_of_int (100 - 0) = 1" by simp
  have one: "fl 1 = 1" using fl_of_int[of 1] by simp
  have d: "(3602879701896397 / 36028797018963968 - 3152519739159347 / 4503599627370496 :: real)
      = - (21617278211378379 / 36028797018963968)" by simp
  have D: "fl (- (5404319552844595 / 9007199254740992)) = - (5404319552844595 / 9007199254740992)"
    using fl_dyadic[of "- 5404319552844595"] by simp
  have s: "(3152519739159347 / 4503599627370496 + - (5404319552844595 / 9007199254740992) :: real)
      = 900719925474099 / 9007199254740992" by simp
  have X: "fl (900719925474099 / 9007199254740992) = 900719925474099 / 9007199254740992"
    using fl_dyadic[of 900719925474099] by simp
  show ?thesis by (simp only: t one d fl_difference mult_1_right D s X)
qed

lemma rounding_rendered:
  "r_x (r_players (interpolateState 200 rounding_client) ! 0)
     = Num (900719925474099 / 9007199254740992)"
proof -
  have lt: "timestamp rounding_before < timestamp rounding_after"
    by (simp add: rounding_before_def rounding_after_def)
  have n: "0 < length (snap_players rounding_before)" by (simp add: rounding_before_def)
  have f: "find (\<lambda>p. v_id p = v_id (snap_players rounding_before ! 0)) (snap_players rounding_after)
      = Some \<lparr>v_id = 1, v_x = 3602879701896397 / 36028797018963968, v_y = 0, v_score = 0,
                       v_color = ''red''\<rparr>"
    by (simp add: rounding_before_def rounding_after_def)
  have b: "\<bar>v_x (snap_players rounding_before ! 0)\<bar> \<le> coord_limit"
    "\<bar>v_x \<lparr>v_id = 1, v_x = 3602879701896397 / 36028797018963968, v_y = 0, v_score = 0,
                       v_color = ''red''\<rparr>\<bar> \<le> coord_limit"
    using coord_limit_ge_1 by (simp_all add: rounding_before_def)
  have "r_x (r_players (interpolateState 200 rounding_client) ! 0) =
     Num (fl (3152519739159347 / 4503599627370496 +
       fl (fl (3602879701896397 / 36028797018963968 - 3152519739159347 / 4503599627370496) *
           fl (real_of_int (200 - 100 - 0) / real_of_int (100 - 0)))))"
    using selected_value(1)[OF rounding_selected n f lt b]
    by (simp add: rounding_before_def rounding_after_def INTERPOLATION_DELAY_def)
  then show ?thesis by (simp only: rounding_value)
qed

text \<open>
  C10 as stated fails. The snapshots at 0 and 100 hold player 1 at the doubles
  \<^verbatim>\<open>0.7\<close> and \<^verbatim>\<open>0.1\<close> on the x axis (both are fixed by \<open>fl\<close>); at \<open>now = 200\<close> the
  render time is 100 and \<^verbatim>\<open>t\<close> is 1. The difference \<^verbatim>\<open>0.1 - 0.7\<close> rounds to
  \<open>- 5404319552844595 / 2 ^ 53\<close>, and the rendered coordinate is
  \<open>900719925474099 / 2 ^ 53\<close>, that is \<^verbatim>\<open>0.09999999999999998\<close>: below the coordinate
  in \<open>after\<close>, which is below the one in \<open>before\<close>.
\<close>

theorem interpolateState_outside_endpoints_counterexample:
  "interpolateState_loop (serverStates rounding_client) (200 - INTERPOLATION_DELAY) 0
     = Some (rounding_before, rounding_after)
   \<and> timestamp rounding_before < timestamp rounding_after
   \<and> map v_x (snap_players rounding_before) = [3152519739159347 / 4503599627370496]
   \<and> map v_x (snap_players rounding_after) = [3602879701896397 / 36028797018963968]
   \<and> fl (3152519739159347 / 4503599627370496) = 3152519739159347 / 4503599627370496
   \<and> fl (3602879701896397 / 36028797018963968) = 3602879701896397 / 36028797018963968
   \<and> r_x (r_players (interpolateState 200 rounding_client) ! 0)
       = Num (900719925474099 / 9007199254740992)
   \<and> (900719925474099 / 9007199254740992 :: real) < 3602879701896397 / 36028797018963968
   \<and> (3602879701896397 / 36028797018963968 :: real) < 3152519739159347 / 4503599627370496"
proof -
  have rep: "fl (3152519739159347 / 4503599627370496) = 3152519739159347 / 4503599627370496"
    "fl (3602879701896397 / 36028797018963968) = 3602879701896397 / 36028797018963968"
    using fl_fixed[of 3152519739159347 "- 52"] fl_fixed[of 3602879701896397 "- 55"]
    by (simp_all add: power_int_minus_divide)
  from rounding_selected rep rounding_rendered show ?thesis
    by (simp add: rounding_before_def rounding_after_def)
qed

text \<open>
  C10 (amended) at the example of C5 (timestamps 0 and 100); at a buffer whose two
  snapshots both carry timestamp 0, sampled at render time 0, where the coordinates of
  player 1 are \<^verbatim>\<open>NaN\<close>; and at the snapshots of the doubles \<^verbatim>\<open>0.7\<close> and \<^verbatim>\<open>0.1\<close>, where
  the rendered coordinate is within the rounding error of the interval.
\<close>

theorem interpolateState_near_endpoints_witness:
  "interpolateState_loop (serverStates example_client) (150 - INTERPOLATION_DELAY) 0
     = Some (example_before, example_after)
   \<and> timestamp example_before < timestamp example_after
   \<and> r_x (r_players (interpolateState 150 example_client) ! 0) = Num 5
   \<and> r_y (r_players (interpolateState 150 example_client) ! 0) = Num 0
   \<and> interpolateState_loop (serverStates duplicate_client) (100 - INTERPOLATION_DELAY) 0
     = Some (example_before, duplicate_after)
   \<and> timestamp example_before = timestamp duplicate_after
   \<and> r_x (r_players (interpolateState 100 duplicate_client) ! 0) = NaN
   \<and> r_y (r_players (interpolateState 100 duplicate_client) ! 0) = NaN
   \<and> (\<exists>x. r_x (r_players (interpolateState 200 rounding_client) ! 0) = Num x \<and>
          3602879701896397 / 36028797018963968
            - (8 * eps * (3152519739159347 / 4503599627370496) + 4 * tiny) \<le> x \<and>
          x \<le> 3152519739159347 / 4503599627370496
            + (8 * eps * (3152519739159347 / 4503599627370496) + 4 * tiny))"
proof -
  have h1: "interpolateState_loop (serverStates example_client) (150 - INTERPOLATION_DELAY) 0
      = Some (example_before, example_after)"
    by (simp add: interpolateState_loop.simps example_client_def example_before_def
        example_after_def INTERPOLATION_DELAY_def)
  have h2: "interpolateState_loop (serverStates duplicate_client) (100 - INTERPOLATION_DELAY) 0
      = Some (example_before, duplicate_after)"
    by (simp add: interpolateState_loop.simps duplicate_client_def example_before_def
        duplicate_after_def INTERPOLATION_DELAY_def)
  have f2: "find (\<lambda>p. v_id p = v_id (snap_players example_before ! 0)) (snap_players duplicate_after)
      = Some \<lparr>v_id = 1, v_x = 10, v_y = 0, v_score = 1, v_color = ''red''\<rparr>"
    by (simp add: example_before_def duplicate_after_def)
  have n: "0 < length (snap_players example_before)" by (simp add: example_before_def)
  have lt: "timestamp example_before < timestamp example_after"
    by (simp add: example_before_def example_after_def)
  have eq: "timestamp example_before = timestamp duplicate_after"
    by (simp add: example_before_def duplicate_after_def)
  from interpolateState_near_endpoints[OF h2] eq n f2
  have nan: "r_x (r_players (interpolateState 100 duplicate_client) ! 0) = NaN \<and>
             r_y (r_players (interpolateState 100 duplicate_client) ! 0) = NaN"
    unfolding Let_def by blast
  have F: "fl (1 / 2) = 1 / 2" using fl_halves[of 1] by simp
  have f1: "find (\<lambda>p. v_id p = v_id (snap_players example_before ! 0)) (snap_players example_after)
      = Some \<lparr>v_id = 1, v_x = 10, v_y = 0, v_score = 1, v_color = ''red''\<rparr>"
    by (simp add: example_before_def example_after_def)
  have b1: "\<bar>v_x (snap_players example_before ! 0)\<bar> \<le> coord_limit"
    "\<bar>v_x \<lparr>v_id = 1, v_x = 10, v_y = 0, v_score = 1, v_color = ''red''\<rparr>\<bar> \<le> coord_limit"
    "\<bar>v_y (snap_players example_before ! 0)\<bar> \<le> coord_limit"
    "\<bar>v_y \<lparr>v_id = 1, v_x = 10, v_y = 0, v_score = 1, v_color = ''red''\<rparr>\<bar> \<le> coord_limit"
    using coord_limit_large by (simp_all add: example_before_def)
  have fin: "r_x (r_players (interpolateState 150 example_client) ! 0) = Num 5 \<and>
             r_y (r_players (interpolateState 150 example_client) ! 0) = Num 0"
    using selected_value(1)[OF h1 n f1 lt b1(1,2)] selected_value(2)[OF h1 n f1 lt b1(3,4)]
    by (simp add: example_before_def example_after_def INTERPOLATION_DELAY_def F fl_numeral)
  have lt3: "timestamp rounding_before < timestamp rounding_after"
    by (simp add: rounding_before_def rounding_after_def)
  have n3: "0 < length (snap_players rounding_before)" by (simp add: rounding_before_def)
  have f3: "find (\<lambda>p. v_id p = v_id (snap_players rounding_before ! 0)) (snap_players rounding_after)
      = Some \<lparr>v_id = 1, v_x = 3602879701896397 / 36028797018963968, v_y = 0, v_score = 0,
                       v_color = ''red''\<rparr>"
    by (simp add: rounding_before_def rounding_after_def)
  have b3: "\<bar>v_x (snap_players rounding_before ! 0)\<bar> \<le> coord_limit"
    "\<bar>v_x \<lparr>v_id = 1, v_x = 3602879701896397 / 36028797018963968, v_y = 0, v_score = 0,
                       v_color = ''red''\<rparr>\<bar> \<le> coord_limit"
    using coord_limit_ge_1 by (simp_all add: rounding_before_def)
  from interpolateState_near_endpoints[OF rounding_selected] lt3 n3 f3 b3
  have "\<exists>x. r_x (r_players (interpolateState 200 rounding_client) ! 0) = Num x \<and>
      min (v_x (snap_players rounding_before ! 0))
          (v_x \<lparr>v_id = 1, v_x = 3602879701896397 / 36028797018963968, v_y = 0, v_score = 0,
                       v_color = ''red''\<rparr>)
        - (8 * eps * max \<bar>v_x (snap_players rounding_before ! 0)\<bar>
             \<bar>v_x \<lparr>v_id = 1, v_x = 3602879701896397 / 36028797018963968, v_y = 0, v_score = 0,
                       v_color = ''red''\<rparr>\<bar> + 4 * tiny) \<le> x \<and>
      x \<le> max (v_x (snap_players rounding_before ! 0))
          (v_x \<lparr>v_id = 1, v_x = 3602879701896397 / 36028797018963968, v_y = 0, v_score = 0,
                       v_color = ''red''\<rparr>)
        + (8 * eps * max \<bar>v_x (snap_players rounding_before ! 0)\<bar>
             \<bar>v_x \<lparr>v_id = 1, v_x = 3602879701896397 / 36028797018963968, v_y = 0, v_score = 0,
                       v_color = ''red''\<rparr>\<bar> + 4 * tiny)"
    unfolding Let_def by blast
  then have rd: "\<exists>x. r_x (r_players (interpolateState 200 rounding_client) ! 0) = Num x \<and>
          3602879701896397 / 36028797018963968
            - (8 * eps * (3152519739159347 / 4503599627370496) + 4 * tiny) \<le> x \<and>
          x \<le> 3152519739159347 / 4503599627370496
            + (8 * eps * (3152519739159347 / 4503599627370496) + 4 * tiny)"
    by (simp add: rounding_before_def)
  from h1 h2 lt eq nan fin rd show ?thesis by blast
qed

section \<open>Ingestion order\<close>

text \<open>
  C8 (amended). Ingesting a state message appends the snapshot at the end of the buffer
  and prunes: the new buffer is the pruned old buffer followed by the new snapshot (if
  the new snapshot itself survives the prune). Nothing is inserted at a sorted position
  and nothing is overwritten. The buffer is sorted by timestamp after the ingestion
  provided that it was sorted before and the new timestamp is not smaller than any
  buffered one.
\<close>

theorem ingest_appends:
  "serverStates (GameClient_handleMessage now (State ts ps cs) c) =
     filter (\<lambda>s. now - 1000 < timestamp s) (serverStates c) @
       (if now - 1000 < ts then [\<lparr>timestamp = ts, snap_players = ps, snap_coins = cs\<rparr>] else [])
   \<and> (sorted (map timestamp (serverStates c)) \<and> (\<forall>s\<in>set (serverStates c). timestamp s \<le> ts)
        \<longrightarrow> sorted (map timestamp (serverStates (GameClient_handleMessage now (State ts ps cs) c))))"
proof -
  have eq: "serverStates (GameClient_handleMessage now (State ts ps cs) c) =
     filter (\<lambda>s. now - 1000 < timestamp s) (serverStates c) @
       (if now - 1000 < ts then [\<lparr>timestamp = ts, snap_players = ps, snap_coins = cs\<rparr>] else [])"
    by (simp add: GameClient_handleMessage_def Let_def)
  have "sorted (map timestamp (serverStates (GameClient_handleMessage now (State ts ps cs) c)))"
    if s: "sorted (map timestamp (serverStates c))" and le: "\<forall>s\<in>set (serverStates c). timestamp s \<le> ts"
  proof -
    have "sorted (map timestamp (filter (\<lambda>s. now - 1000 < timestamp s) (serverStates c)))"
      using s by (rule sorted_filter)
    with le show ?thesis unfolding eq by (auto simp: sorted_append)
  qed
  with eq show ?thesis by blast
qed

text \<open>
  C8 (amended) at a buffer holding the snapshot of time 0, into which a snapshot of time
  100 is ingested at \<open>now = 150\<close>.
\<close>

theorem ingest_appends_witness:
  "sorted (map timestamp [example_before])
   \<and> timestamp example_before \<le> 100
   \<and> serverStates (GameClient_handleMessage 150 (State 100 [] [])
        \<lparr>myPlayerId = Some 1, serverStates = [example_before]\<rparr>)
     = [example_before, \<lparr>timestamp = 100, snap_players = [], snap_coins = []\<rparr>]
   \<and> sorted (map timestamp (serverStates (GameClient_handleMessage 150 (State 100 [] [])
        \<lparr>myPlayerId = Some 1, serverStates = [example_before]\<rparr>)))"
  using ingest_appends[of 150 100 "[]" "[]" "\<lparr>myPlayerId = Some 1, serverStates = [example_before]\<rparr>"]
  by (simp add: example_before_def)

text \<open>
  C8 as stated fails. A snapshot of time 100 that arrives after the snapshot of time 200
  is appended behind it, so the buffer is not sorted; and a snapshot of time 200 that
  arrives when one of time 200 is buffered gives two entries of time 200.
\<close>

theorem ingest_not_sorted_counterexample:
  "map timestamp (serverStates (GameClient_handleMessage 300 (State 100 [] [])
        \<lparr>myPlayerId = Some 1,
         serverStates = [\<lparr>timestamp = 200, snap_players = [], snap_coins = []\<rparr>]\<rparr>))
     = [200, 100]
   \<and> \<not> sorted (map timestamp (serverStates (GameClient_handleMessage 300 (State 100 [] [])
        \<lparr>myPlayerId = Some 1,
         serverStates = [\<lparr>timestamp = 200, snap_players = [], snap_coins = []\<rparr>]\<rparr>)))
   \<and> map timestamp (serverStates (GameClient_handleMessage 300 (State 200 [] [])
        \<lparr>myPlayerId = Some 1,
         serverStates = [\<lparr>timestamp = 200, snap_players = [], snap_coins = []\<rparr>]\<rparr>))
     = [200, 200]"
  by (simp add: GameClient_handleMessage_def Let_def)

section \<open>Pruning\<close>

text \<open>
  C9 (amended). Every ingestion of a state message prunes the buffer: afterwards the
  buffer holds, in their order, exactly the entries of the buffer with the new snapshot
  appended whose timestamp is greater than \<open>now - 1000\<close>. An entry whose timestamp is
  \<open>now - 1000\<close> or less is removed, whatever the order of ingestion; in particular the
  entry whose timestamp equals \<open>now - 1000\<close> exactly is removed, not retained.
\<close>

theorem prune_on_ingest:
  "serverStates (GameClient_handleMessage now (State ts ps cs) c) =
     filter (\<lambda>s. now - 1000 < timestamp s)
       (serverStates c @ [\<lparr>timestamp = ts, snap_players = ps, snap_coins = cs\<rparr>])
   \<and> set (serverStates (GameClient_handleMessage now (State ts ps cs) c)) =
     {s. (s \<in> set (serverStates c) \<or> s = \<lparr>timestamp = ts, snap_players = ps, snap_coins = cs\<rparr>)
         \<and> \<not> timestamp s \<le> now - 1000}"
  by (auto simp: GameClient_handleMessage_def Let_def)

text \<open>
  C9 as stated fails at the boundary: a buffered snapshot of time 1000 is removed by an
  ingestion at \<open>now = 2000\<close>, although \<open>1000 \<ge> now - 1000\<close>.
\<close>

theorem prune_boundary_counterexample:
  "\<lparr>timestamp = 1000, snap_players = [], snap_coins = []\<rparr>
     \<notin> set (serverStates (GameClient_handleMessage 2000 (State 1900 [] [])
         \<lparr>myPlayerId = Some 1,
          serverStates = [\<lparr>timestamp = 1000, snap_players = [], snap_coins = []\<rparr>]\<rparr>))
   \<and> (1000::int) \<ge> 2000 - 1000"
  by (simp add: GameClient_handleMessage_def Let_def)

section \<open>The server: collisions and the update loop\<close>

lemma overlaps_score [simp]: "overlaps (p\<lparr>p_score := k\<rparr>) = overlaps p"
  by (rule ext) (simp add: overlaps_def)

lemma checkCoinCollisions_loop_eq:
  "n \<le> length cs \<Longrightarrow>
   checkCoinCollisions_loop n p cs =
     (p\<lparr>p_score := p_score p + int (length (filter (overlaps p) (take n cs)))\<rparr>,
      filter (\<lambda>c. \<not> overlaps p c) (take n cs) @ drop n cs)"
proof (induction n arbitrary: p cs)
  case 0
  then show ?case by simp
next
  case (Suc n)
  then have n: "n < length cs" by simp
  have tk: "take (Suc n) cs = take n cs @ [cs ! n]" using n by (simp add: take_Suc_conv_app_nth)
  have dr: "drop n cs = cs ! n # drop (Suc n) cs" using n by (simp add: Cons_nth_drop_Suc)
  show ?case
  proof (cases "overlaps p (cs ! n)")
    case True
    let ?cs' = "take n cs @ drop (Suc n) cs"
    have len: "n \<le> length ?cs'" using n by simp
    have t': "take n ?cs' = take n cs" using n by simp
    have d': "drop n ?cs' = drop (Suc n) cs" using n by simp
    let ?p1 = "p\<lparr>p_score := p_score p + 1\<rparr>"
    have ih: "checkCoinCollisions_loop n ?p1 ?cs' =
        (?p1\<lparr>p_score := p_score ?p1 + int (length (filter (overlaps ?p1) (take n cs)))\<rparr>,
         filter (\<lambda>c. \<not> overlaps ?p1 c) (take n cs) @ drop (Suc n) cs)"
      using Suc.IH[OF len, of ?p1] unfolding t' d' .
    show ?thesis
      using True by (simp add: ih tk Let_def)
  next
    case False
    have len: "n \<le> length cs" using n by simp
    show ?thesis
      using False Suc.IH[OF len, of p]
      by (simp add: tk dr Let_def)
  qed
qed

lemma checkCoinCollisions_eq:
  "checkCoinCollisions p cs =
     (p\<lparr>p_score := p_score p + int (length (filter (overlaps p) cs))\<rparr>,
      filter (\<lambda>c. \<not> overlaps p c) cs)"
  by (simp add: checkCoinCollisions_def checkCoinCollisions_loop_eq)

lemma update_loop_Cons:
  assumes "update_loop ((pid, p) # rest) cs = Inr (ps', cs')"
  obtains dx dy rest' where
    "displacement (p_inputs p) = Inr (dx, dy)"
    "update_loop rest (filter (\<lambda>c. \<not> overlaps (move p dx dy) c) cs) = Inr (rest', cs')"
    "ps' = (pid, (move p dx dy)\<lparr>p_score := p_score p +
              int (length (filter (overlaps (move p dx dy)) cs))\<rparr>) # rest'"
proof -
  from assms obtain dx dy where d: "displacement (p_inputs p) = Inr (dx, dy)"
    by (auto split: sum.splits)
  have sc: "p_score (move p dx dy) = p_score p" by (simp add: move_def)
  from assms d obtain rest' where
    "update_loop rest (filter (\<lambda>c. \<not> overlaps (move p dx dy) c) cs) = Inr (rest', cs')"
    "ps' = (pid, (move p dx dy)\<lparr>p_score := p_score p +
              int (length (filter (overlaps (move p dx dy)) cs))\<rparr>) # rest'"
    by (auto simp: checkCoinCollisions_eq sc split: sum.splits)
  with d show thesis by (rule that)
qed

lemma update_loop_ids:
  "update_loop ps cs = Inr (ps', cs') \<Longrightarrow> map fst ps' = map fst ps"
proof (induction ps arbitrary: cs ps' cs')
  case Nil
  then show ?case by simp
next
  case (Cons a ps)
  obtain pid p where a: "a = (pid, p)" by (cases a)
  from Cons.prems[unfolded a] show ?case
  proof (rule update_loop_Cons)
    fix dx dy rest'
    assume "update_loop ps (filter (\<lambda>c. \<not> overlaps (move p dx dy) c) cs) = Inr (rest', cs')"
      and "ps' = (pid, (move p dx dy)\<lparr>p_score := p_score p +
              int (length (filter (overlaps (move p dx dy)) cs))\<rparr>) # rest'"
    with Cons.IH show ?thesis by (simp add: a)
  qed
qed

lemma in_bounds_move [simp]: "in_bounds ((move p dx dy)\<lparr>p_score := k\<rparr>)"
  by (simp add: in_bounds_def move_def MAP_SIZE_def PLAYER_SIZE_def)

lemma update_loop_in_bounds:
  "update_loop ps cs = Inr (ps', cs') \<Longrightarrow> \<forall>q\<in>set ps'. in_bounds (snd q)"
proof (induction ps arbitrary: cs ps' cs')
  case Nil
  then show ?case by simp
next
  case (Cons a ps)
  obtain pid p where a: "a = (pid, p)" by (cases a)
  from Cons.prems[unfolded a] show ?case
  proof (rule update_loop_Cons)
    fix dx dy rest'
    assume "update_loop ps (filter (\<lambda>c. \<not> overlaps (move p dx dy) c) cs) = Inr (rest', cs')"
      and "ps' = (pid, (move p dx dy)\<lparr>p_score := p_score p +
              int (length (filter (overlaps (move p dx dy)) cs))\<rparr>) # rest'"
    with Cons.IH show ?thesis by simp
  qed
qed

lemma update_loop_coins:
  "update_loop ps cs = Inr (ps', cs') \<Longrightarrow>
   cs' = filter (\<lambda>c. \<forall>q\<in>set ps'. \<not> overlaps (snd q) c) cs"
proof (induction ps arbitrary: cs ps' cs')
  case Nil
  then show ?case by simp
next
  case (Cons a ps)
  obtain pid p where a: "a = (pid, p)" by (cases a)
  from Cons.prems[unfolded a] show ?case
  proof (rule update_loop_Cons)
    fix dx dy rest'
    assume r: "update_loop ps (filter (\<lambda>c. \<not> overlaps (move p dx dy) c) cs) = Inr (rest', cs')"
      and p: "ps' = (pid, (move p dx dy)\<lparr>p_score := p_score p +
              int (length (filter (overlaps (move p dx dy)) cs))\<rparr>) # rest'"
    from Cons.IH[OF r] show ?thesis by (simp add: p conj_commute)
  qed
qed

lemma update_loop_scores:
  "update_loop ps cs = Inr (ps', cs') \<Longrightarrow> i < length ps \<Longrightarrow>
   p_score (snd (ps' ! i)) =
     p_score (snd (ps ! i)) +
     int (length (filter (\<lambda>c. overlaps (snd (ps' ! i)) c \<and>
                              (\<forall>j<i. \<not> overlaps (snd (ps' ! j)) c)) cs))"
proof (induction ps arbitrary: cs ps' cs' i)
  case Nil
  then show ?case by simp
next
  case (Cons a ps)
  obtain pid p where a: "a = (pid, p)" by (cases a)
  from Cons.prems(1)[unfolded a] show ?case
  proof (rule update_loop_Cons)
    fix dx dy rest'
    assume r: "update_loop ps (filter (\<lambda>c. \<not> overlaps (move p dx dy) c) cs) = Inr (rest', cs')"
      and p: "ps' = (pid, (move p dx dy)\<lparr>p_score := p_score p +
              int (length (filter (overlaps (move p dx dy)) cs))\<rparr>) # rest'"
    show ?thesis
    proof (cases i)
      case 0
      then show ?thesis by (simp add: p a)
    next
      case (Suc k)
      with Cons.prems(2) have k: "k < length ps" by simp
      have all: "(\<forall>j<Suc k. \<not> overlaps (snd (ps' ! j)) c) \<longleftrightarrow>
                 (\<not> overlaps (move p dx dy) c \<and> (\<forall>j<k. \<not> overlaps (snd (rest' ! j)) c))" for c
        by (simp add: p All_less_Suc2)
      have "filter (\<lambda>c. overlaps (snd (rest' ! k)) c \<and> (\<forall>j<k. \<not> overlaps (snd (rest' ! j)) c))
              (filter (\<lambda>c. \<not> overlaps (move p dx dy) c) cs) =
            filter (\<lambda>c. overlaps (snd (ps' ! Suc k)) c \<and> (\<forall>j<Suc k. \<not> overlaps (snd (ps' ! j)) c)) cs"
        unfolding all by (simp add: p conj_ac)
      with Cons.IH[OF r k] show ?thesis by (simp add: Suc a p)
    qed
  qed
qed

lemma update_loop_total_score:
  "update_loop ps cs = Inr (ps', cs') \<Longrightarrow>
   (\<Sum>q\<leftarrow>ps'. p_score (snd q)) + int (length cs') = (\<Sum>q\<leftarrow>ps. p_score (snd q)) + int (length cs)"
proof (induction ps arbitrary: cs ps' cs')
  case Nil
  then show ?case by simp
next
  case (Cons a ps)
  obtain pid p where a: "a = (pid, p)" by (cases a)
  from Cons.prems[unfolded a] show ?case
  proof (rule update_loop_Cons)
    fix dx dy rest'
    assume r: "update_loop ps (filter (\<lambda>c. \<not> overlaps (move p dx dy) c) cs) = Inr (rest', cs')"
      and p: "ps' = (pid, (move p dx dy)\<lparr>p_score := p_score p +
              int (length (filter (overlaps (move p dx dy)) cs))\<rparr>) # rest'"
    have "length (filter (overlaps (move p dx dy)) cs) +
          length (filter (\<lambda>c. \<not> overlaps (move p dx dy) c) cs) = length cs"
      by (rule sum_length_filter_compl)
    with Cons.IH[OF r] show ?thesis by (simp add: p a)
  qed
qed

section \<open>The server: reading the stored inputs\<close>

lemma get_prop_readable:
  "readable v \<Longrightarrow> \<exists>w. get_prop v k = Inr w"
  by (cases v) (simp_all add: readable_def)

lemma get_prop_unreadable:
  "\<not> readable v \<Longrightarrow> get_prop v k = Inl TypeError"
  by (cases v) (simp_all add: readable_def)

lemma displacement_unreadable:
  "\<not> readable v \<Longrightarrow> displacement v = Inl TypeError"
  by (simp add: displacement_def get_prop_unreadable)

lemma displacement_flags:
  assumes "readable inputs"
  shows "displacement inputs =
     (let dy = (if flag inputs ''down'' then PLAYER_SPEED else 0) -
               (if flag inputs ''up'' then PLAYER_SPEED else 0);
          dx = (if flag inputs ''right'' then PLAYER_SPEED else 0) -
               (if flag inputs ''left'' then PLAYER_SPEED else 0)
      in if dx \<noteq> 0 \<and> dy \<noteq> 0 then Inr (dx / sqrt 2, dy / sqrt 2) else Inr (dx, dy))"
proof -
  obtain u d l r where g: "get_prop inputs ''up'' = Inr u" "get_prop inputs ''down'' = Inr d"
    "get_prop inputs ''left'' = Inr l" "get_prop inputs ''right'' = Inr r"
    using get_prop_readable[OF assms] by metis
  show ?thesis
    by (simp add: displacement_def flag_def g Let_def PLAYER_SPEED_def)
qed

lemma displacement_total:
  "readable inputs \<Longrightarrow> \<exists>dx dy. displacement inputs = Inr (dx, dy)"
  by (simp add: displacement_flags Let_def)

lemma update_loop_total:
  "\<forall>q\<in>set ps. readable (p_inputs (snd q)) \<Longrightarrow> \<exists>ps' cs'. update_loop ps cs = Inr (ps', cs')"
proof (induction ps arbitrary: cs)
  case Nil
  then show ?case by simp
next
  case (Cons a ps)
  obtain pid p where a: "a = (pid, p)" by (cases a)
  from Cons.prems a obtain dx dy where d: "displacement (p_inputs p) = Inr (dx, dy)"
    using displacement_total by fastforce
  from Cons.prems have "\<forall>q\<in>set ps. readable (p_inputs (snd q))" by simp
  from Cons.IH[OF this, of "filter (\<lambda>c. \<not> overlaps (move p dx dy) c) cs"]
  obtain ps' cs' where "update_loop ps (filter (\<lambda>c. \<not> overlaps (move p dx dy) c) cs) = Inr (ps', cs')"
    by blast
  then show ?case by (simp add: a d checkCoinCollisions_eq)
qed

lemma update_loop_fault:
  "\<exists>q\<in>set ps. \<not> readable (p_inputs (snd q)) \<Longrightarrow> update_loop ps cs = Inl TypeError"
proof (induction ps arbitrary: cs)
  case Nil
  then show ?case by simp
next
  case (Cons a ps)
  obtain pid p where a: "a = (pid, p)" by (cases a)
  show ?case
  proof (cases "readable (p_inputs p)")
    case False
    then show ?thesis by (simp add: a displacement_unreadable)
  next
    case True
    then obtain dx dy where d: "displacement (p_inputs p) = Inr (dx, dy)"
      using displacement_total by blast
    from True Cons.prems a have "\<exists>q\<in>set ps. \<not> readable (p_inputs (snd q))" by auto
    from Cons.IH[OF this] show ?thesis by (simp add: a d checkCoinCollisions_eq)
  qed
qed

section \<open>The server: effects of the handlers\<close>

lemma fold_sendWithLatency:
  "fold (\<lambda>(_, player). sendWithLatency (p_ws player) d) ps s =
     s\<lparr>timers := timers s @ map (\<lambda>(_, player). (p_ws player, d)) ps\<rparr>"
  by (induction ps arbitrary: s) (auto simp: sendWithLatency_def)

lemma broadcastGameState_eq:
  "broadcastGameState now s =
     s\<lparr>timers := timers s @
         map (\<lambda>(_, player). (p_ws player, buildSnapshot now s)) (players s)\<rparr>"
  by (simp add: broadcastGameState_def Let_def fold_sendWithLatency)

lemma set_map_set: "set (map_set m k v) \<subseteq> insert (k, v) (set m)"
  by (auto simp: map_set_def split: if_splits)

lemma map_of_map_set: "map_of (map_set m k v) k = Some v"
proof (cases "k \<in> fst ` set m")
  case True
  then show ?thesis
    by (induction m) (auto simp: map_set_def)
next
  case False
  then have "map_of m k = None" by (simp add: map_of_eq_None_iff)
  with False show ?thesis by (simp add: map_set_def map_add_def)
qed

lemma length_map_set_known:
  assumes "map_of m k = Some v0"
  shows "length (map_set m k v) = length m"
proof -
  from assms have "(k, v0) \<in> set m" by (rule map_of_SomeD)
  then have "k \<in> fst ` set m" by force
  then show ?thesis by (simp add: map_set_def)
qed

lemma in_bounds_inputs [simp]: "in_bounds (p\<lparr>p_inputs := v\<rparr>) = in_bounds p"
  by (simp add: in_bounds_def)

lemma handleConnection_fields:
  "players (handleConnection rx ry color now cx cy s) =
     map_set (players s) (nextPlayerId s) (new_player (nextPlayerId s) rx ry color)"
  "gameStarted (handleConnection rx ry color now cx cy s) \<longleftrightarrow>
     gameStarted s \<or> 2 \<le> length (players (handleConnection rx ry color now cx cy s))"
  "the_coins (handleConnection rx ry color now cx cy s) =
     (if 2 \<le> length (players (handleConnection rx ry color now cx cy s)) \<and> \<not> gameStarted s
      then the_coins s @ [\<lparr>c_id = now, c_x = cx * (MAP_SIZE - COIN_SIZE),
                           c_y = cy * (MAP_SIZE - COIN_SIZE)\<rparr>]
      else the_coins s)"
  by (auto simp: handleConnection_def Let_def sendWithLatency_def spawnCoin_def the_coins_def)

lemma in_bounds_new_player:
  "unit_random rx \<Longrightarrow> unit_random ry \<Longrightarrow> in_bounds (new_player i rx ry col)"
  by (simp add: in_bounds_def new_player_def unit_random_def MAP_SIZE_def PLAYER_SIZE_def
      mult_left_le_one_le)

lemma handleMessage_cases:
  "GameServer_handleMessage playerId parsed s = s \<or>
   (\<exists>player v. map_of (players s) playerId = Some player \<and>
      GameServer_handleMessage playerId parsed s =
        s\<lparr>players := map_set (players s) playerId (player\<lparr>p_inputs := v\<rparr>)\<rparr>)"
  by (auto simp: GameServer_handleMessage_def handleMessage_try_def
      split: option.splits sum.splits)

lemma update_fields:
  assumes "update s = Inr s'"
  shows "update_loop (players s) (the_coins s) = Inr (players s', the_coins s')"
    and "gameStarted s' = gameStarted s" and "coins s' = coins s"
    and "nextPlayerId s' = nextPlayerId s" and "timers s' = timers s"
    and "closed s' = closed s" and "sent s' = sent s"
proof -
  from assms obtain ps cs where ul: "update_loop (players s) (heap s (coins s)) = Inr (ps, cs)"
    and s': "s' = s\<lparr>players := ps, heap := (heap s)(coins s := cs)\<rparr>"
    by (auto simp: update_def split: sum.splits)
  show "update_loop (players s) (the_coins s) = Inr (players s', the_coins s')"
    using ul by (simp add: s' the_coins_def)
  show "gameStarted s' = gameStarted s" "coins s' = coins s"
    "nextPlayerId s' = nextPlayerId s" "timers s' = timers s"
    "closed s' = closed s" "sent s' = sent s"
    by (simp_all add: s')
qed

lemma length_update_loop:
  "update_loop ps cs = Inr (ps', cs') \<Longrightarrow> length ps' = length ps"
proof -
  assume "update_loop ps cs = Inr (ps', cs')"
  then have "map fst ps' = map fst ps" by (rule update_loop_ids)
  then have "length (map fst ps') = length (map fst ps)" by simp
  then show ?thesis by simp
qed

lemma update_loop_score_mono:
  assumes "update_loop ps cs = Inr (ps', cs')" "i < length ps"
  shows "p_score (snd (ps ! i)) \<le> p_score (snd (ps' ! i))"
  using update_loop_scores[OF assms] by simp

lemma tick_cases:
  assumes "tick now s = Inr s'"
  shows "(\<not> gameStarted s \<and> s' = s) \<or>
         (gameStarted s \<and> (\<exists>s1. update s = Inr s1 \<and> s' = broadcastGameState now s1))"
  using assms by (auto simp: tick_def split: if_splits sum.splits)

lemma tick_fields:
  assumes "tick now s = Inr s'"
  shows "gameStarted s' = gameStarted s" "length (players s') = length (players s)"
    "length (the_coins s') \<le> length (the_coins s)"
    "\<forall>i<length (players s). p_score (snd (players s ! i)) \<le> p_score (snd (players s' ! i))"
    "gameStarted s \<longrightarrow> on_map s'"
proof -
  from tick_cases[OF assms] have
    "gameStarted s' = gameStarted s \<and> length (players s') = length (players s) \<and>
     length (the_coins s') \<le> length (the_coins s) \<and>
     (\<forall>i<length (players s). p_score (snd (players s ! i)) \<le> p_score (snd (players s' ! i))) \<and>
     (gameStarted s \<longrightarrow> on_map s')"
  proof
    assume "\<not> gameStarted s \<and> s' = s"
    then show ?thesis by simp
  next
    assume "gameStarted s \<and> (\<exists>s1. update s = Inr s1 \<and> s' = broadcastGameState now s1)"
    then obtain s1 where g: "gameStarted s" and u: "update s = Inr s1"
      and s': "s' = broadcastGameState now s1" by blast
    note ul = update_fields(1)[OF u]
    have p: "players s' = players s1" "the_coins s' = the_coins s1" "gameStarted s' = gameStarted s1"
      by (simp_all add: s' broadcastGameState_eq the_coins_def)
    have len: "length (the_coins s1) \<le> length (the_coins s)"
      by (subst update_loop_coins[OF ul]) (rule length_filter_le)
    have sc: "\<forall>i<length (players s). p_score (snd (players s ! i)) \<le> p_score (snd (players s1 ! i))"
      using update_loop_score_mono[OF ul] by blast
    have "on_map s'" unfolding on_map_def p using update_loop_in_bounds[OF ul] .
    with len sc length_update_loop[OF ul] update_fields(2)[OF u] show ?thesis
      by (simp add: p)
  qed
  then show "gameStarted s' = gameStarted s" "length (players s') = length (players s)"
    "length (the_coins s') \<le> length (the_coins s)"
    "\<forall>i<length (players s). p_score (snd (players s ! i)) \<le> p_score (snd (players s' ! i))"
    "gameStarted s \<longrightarrow> on_map s'"
    by blast+
qed

lemma spawn_trigger_cases:
  "(gameStarted s \<and> length (the_coins s) < 5 \<and>
      spawn_trigger now rx ry s = spawnCoin now rx ry s) \<or>
   (\<not> (gameStarted s \<and> length (the_coins s) < 5) \<and> spawn_trigger now rx ry s = s)"
  by (auto simp: spawn_trigger_def the_coins_def)

lemma spawnCoin_fields:
  "players (spawnCoin now rx ry s) = players s"
  "gameStarted (spawnCoin now rx ry s) = gameStarted s"
  "the_coins (spawnCoin now rx ry s) =
     the_coins s @ [\<lparr>c_id = now, c_x = rx * (MAP_SIZE - COIN_SIZE),
                      c_y = ry * (MAP_SIZE - COIN_SIZE)\<rparr>]"
  by (simp_all add: spawnCoin_def the_coins_def)

lemma timer_fires_fields:
  "players (timer_fires s) = players s"
  "gameStarted (timer_fires s) = gameStarted s"
  "the_coins (timer_fires s) = the_coins s"
  by (auto simp: timer_fires_def the_coins_def split: list.splits)

lemma handleClose_fields:
  "players (handleClose playerId now s) = map_delete (players s) playerId"
  "gameStarted (handleClose playerId now s) = gameStarted s"
  "the_coins (handleClose playerId now s) = the_coins s"
  by (simp_all add: handleClose_def broadcastGameState_eq the_coins_def)

section \<open>The server: invariants of a run\<close>

lemma server_inv_constructor: "server_inv constructor"
  by (simp add: server_inv_def constructor_def the_coins_def)

lemma on_map_constructor: "on_map constructor"
  by (simp add: on_map_def constructor_def)

lemma server_inv_step:
  assumes "server_inv s" "step e s = Inr s'"
  shows "server_inv s'"
proof (cases e)
  case (Connect rx ry color now cx cy)
  let ?s' = "handleConnection rx ry color now cx cy s"
  have a: "\<forall>q\<in>set (players ?s'). 0 \<le> p_score (snd q)"
  proof
    fix q assume "q \<in> set (players ?s')"
    with set_map_set[of "players s" "nextPlayerId s" "new_player (nextPlayerId s) rx ry color"]
    have "q = (nextPlayerId s, new_player (nextPlayerId s) rx ry color) \<or> q \<in> set (players s)"
      by (auto simp: handleConnection_fields(1))
    with assms(1) show "0 \<le> p_score (snd q)"
      by (auto simp: server_inv_def new_player_def)
  qed
  have b: "\<not> gameStarted ?s' \<longrightarrow> length (players ?s') < 2 \<and> the_coins ?s' = []"
    using assms(1) by (auto simp: handleConnection_fields(2,3) server_inv_def)
  have c: "length (the_coins ?s') \<le> 5"
    using assms(1) by (auto simp: handleConnection_fields(3) server_inv_def)
  from a b c have "server_inv ?s'" by (simp add: server_inv_def)
  with assms(2) Connect show ?thesis by simp
next
  case (Message playerId parsed)
  from handleMessage_cases[of playerId parsed s]
  have "server_inv (GameServer_handleMessage playerId parsed s)"
  proof
    assume "GameServer_handleMessage playerId parsed s = s"
    with assms(1) show ?thesis by simp
  next
    assume "\<exists>player v. map_of (players s) playerId = Some player \<and>
      GameServer_handleMessage playerId parsed s =
        s\<lparr>players := map_set (players s) playerId (player\<lparr>p_inputs := v\<rparr>)\<rparr>"
    then obtain player v where m: "map_of (players s) playerId = Some player"
      and e: "GameServer_handleMessage playerId parsed s =
        s\<lparr>players := map_set (players s) playerId (player\<lparr>p_inputs := v\<rparr>)\<rparr>"
      by blast
    from m have mem: "(playerId, player) \<in> set (players s)" by (rule map_of_SomeD)
    have a: "\<forall>q\<in>set (map_set (players s) playerId (player\<lparr>p_inputs := v\<rparr>)). 0 \<le> p_score (snd q)"
    proof
      fix q assume "q \<in> set (map_set (players s) playerId (player\<lparr>p_inputs := v\<rparr>))"
      with set_map_set[of "players s" playerId "player\<lparr>p_inputs := v\<rparr>"]
      have "q = (playerId, player\<lparr>p_inputs := v\<rparr>) \<or> q \<in> set (players s)" by auto
      with mem assms(1) show "0 \<le> p_score (snd q)"
        by (auto simp: server_inv_def)
    qed
    from a assms(1) show ?thesis
      unfolding e by (simp add: server_inv_def the_coins_def length_map_set_known[OF m])
  qed
  with assms(2) Message show ?thesis by simp
next
  case (Close playerId now)
  have len: "length (map_delete (players s) playerId) \<le> length (players s)"
    by (simp add: map_delete_def)
  have sub: "set (map_delete (players s) playerId) \<subseteq> set (players s)"
    by (auto simp: map_delete_def)
  have a: "\<forall>q\<in>set (map_delete (players s) playerId). 0 \<le> p_score (snd q)"
    using assms(1) sub by (auto simp: server_inv_def)
  have b: "\<not> gameStarted s \<longrightarrow> length (map_delete (players s) playerId) < 2 \<and> the_coins s = []"
    using assms(1) len by (auto simp: server_inv_def)
  from a b assms(1) have "server_inv (handleClose playerId now s)"
    by (simp add: server_inv_def handleClose_fields)
  with assms(2) Close show ?thesis by simp
next
  case (Tick now)
  with assms(2) have t: "tick now s = Inr s'" by simp
  note f = tick_fields[OF t]
  have a: "\<forall>q\<in>set (players s'). 0 \<le> p_score (snd q)"
  proof
    fix q assume "q \<in> set (players s')"
    then obtain i where i: "i < length (players s')" "q = players s' ! i"
      by (auto simp: in_set_conv_nth)
    with f(2) have i': "i < length (players s)" by simp
    then have "players s ! i \<in> set (players s)" by simp
    with assms(1) have "0 \<le> p_score (snd (players s ! i))" by (simp add: server_inv_def)
    with f(4) i' i(2) show "0 \<le> p_score (snd q)" by fastforce
  qed
  have b: "\<not> gameStarted s' \<longrightarrow> length (players s') < 2 \<and> the_coins s' = []"
    using assms(1) f(1,2,3) by (auto simp: server_inv_def)
  have c: "length (the_coins s') \<le> 5" using assms(1) f(3) by (simp add: server_inv_def)
  from a b c show ?thesis by (simp add: server_inv_def)
next
  case (SpawnTrigger now rx ry)
  from spawn_trigger_cases[of s now rx ry] assms(1)
  have "server_inv (spawn_trigger now rx ry s)"
    by (auto simp: server_inv_def spawnCoin_fields)
  with assms(2) SpawnTrigger show ?thesis by simp
next
  case TimerFires
  from assms(1) have "server_inv (timer_fires s)"
    by (simp add: server_inv_def timer_fires_fields)
  with assms(2) TimerFires show ?thesis by simp
qed

lemma on_map_step:
  assumes "on_map s" "wf_event e" "step e s = Inr s'"
  shows "on_map s'"
proof (cases e)
  case (Connect rx ry color now cx cy)
  let ?s' = "handleConnection rx ry color now cx cy s"
  from assms(2) Connect have nb: "in_bounds (new_player (nextPlayerId s) rx ry color)"
    by (simp add: in_bounds_new_player)
  have "\<forall>q\<in>set (players ?s'). in_bounds (snd q)"
  proof
    fix q assume "q \<in> set (players ?s')"
    with set_map_set[of "players s" "nextPlayerId s" "new_player (nextPlayerId s) rx ry color"]
    have "q = (nextPlayerId s, new_player (nextPlayerId s) rx ry color) \<or> q \<in> set (players s)"
      by (auto simp: handleConnection_fields(1))
    with assms(1) nb show "in_bounds (snd q)" by (auto simp: on_map_def)
  qed
  with assms(3) Connect show ?thesis by (simp add: on_map_def)
next
  case (Message playerId parsed)
  from handleMessage_cases[of playerId parsed s]
  have "on_map (GameServer_handleMessage playerId parsed s)"
  proof
    assume "GameServer_handleMessage playerId parsed s = s"
    with assms(1) show ?thesis by simp
  next
    assume "\<exists>player v. map_of (players s) playerId = Some player \<and>
      GameServer_handleMessage playerId parsed s =
        s\<lparr>players := map_set (players s) playerId (player\<lparr>p_inputs := v\<rparr>)\<rparr>"
    then obtain player v where m: "map_of (players s) playerId = Some player"
      and e: "GameServer_handleMessage playerId parsed s =
        s\<lparr>players := map_set (players s) playerId (player\<lparr>p_inputs := v\<rparr>)\<rparr>"
      by blast
    from m have mem: "(playerId, player) \<in> set (players s)" by (rule map_of_SomeD)
    have "\<forall>q\<in>set (map_set (players s) playerId (player\<lparr>p_inputs := v\<rparr>)). in_bounds (snd q)"
    proof
      fix q assume "q \<in> set (map_set (players s) playerId (player\<lparr>p_inputs := v\<rparr>))"
      with set_map_set[of "players s" playerId "player\<lparr>p_inputs := v\<rparr>"]
      have "q = (playerId, player\<lparr>p_inputs := v\<rparr>) \<or> q \<in> set (players s)" by auto
      with mem assms(1) show "in_bounds (snd q)" by (auto simp: on_map_def)
    qed
    then show ?thesis unfolding e by (simp add: on_map_def)
  qed
  with assms(3) Message show ?thesis by simp
next
  case (Close playerId now)
  have "set (map_delete (players s) playerId) \<subseteq> set (players s)"
    by (auto simp: map_delete_def)
  with assms(1) have "on_map (handleClose playerId now s)"
    by (auto simp: on_map_def handleClose_fields)
  with assms(3) Close show ?thesis by simp
next
  case (Tick now)
  with assms(3) have t: "tick now s = Inr s'" by simp
  from tick_cases[OF t] tick_fields(5)[OF t] assms(1) show ?thesis by blast
next
  case (SpawnTrigger now rx ry)
  from spawn_trigger_cases[of s now rx ry] assms(1)
  have "on_map (spawn_trigger now rx ry s)"
    by (auto simp: on_map_def spawnCoin_fields)
  with assms(3) SpawnTrigger show ?thesis by simp
next
  case TimerFires
  from assms(1) have "on_map (timer_fires s)"
    by (simp add: on_map_def timer_fires_fields)
  with assms(3) TimerFires show ?thesis by simp
qed

lemma run_Cons_Inr:
  assumes "run (e # es) s = Inr s'"
  obtains s1 where "step e s = Inr s1" "run es s1 = Inr s'"
  using assms by (auto split: sum.splits)

lemma server_inv_run:
  "server_inv s \<Longrightarrow> run es s = Inr s' \<Longrightarrow> server_inv s'"
proof (induction es arbitrary: s)
  case Nil
  then show ?case by simp
next
  case (Cons e es)
  from Cons.prems(2) obtain s1 where s1: "step e s = Inr s1" "run es s1 = Inr s'"
    by (rule run_Cons_Inr)
  from server_inv_step[OF Cons.prems(1) s1(1)] s1(2) show ?case by (rule Cons.IH)
qed

lemma on_map_run:
  "on_map s \<Longrightarrow> \<forall>e\<in>set es. wf_event e \<Longrightarrow> run es s = Inr s' \<Longrightarrow> on_map s'"
proof (induction es arbitrary: s)
  case Nil
  then show ?case by simp
next
  case (Cons e es)
  from Cons.prems(3) obtain s1 where s1: "step e s = Inr s1" "run es s1 = Inr s'"
    by (rule run_Cons_Inr)
  from Cons.prems(2) have w: "wf_event e" "\<forall>e\<in>set es. wf_event e" by simp_all
  from on_map_step[OF Cons.prems(1) w(1) s1(1)] w(2) s1(2) show ?case by (rule Cons.IH)
qed

lemma step_started:
  assumes "step e s = Inr s'"
  shows "gameStarted s \<longrightarrow> gameStarted s'"
    and "(\<forall>rx ry color now cx cy. e \<noteq> Connect rx ry color now cx cy) \<longrightarrow>
           gameStarted s' = gameStarted s \<and> length (players s') \<le> length (players s)"
    and "\<forall>rx ry color now cx cy. e = Connect rx ry color now cx cy \<longrightarrow>
           (gameStarted s' \<longleftrightarrow> gameStarted s \<or> 2 \<le> length (players s'))"
proof -
  have "(gameStarted s \<longrightarrow> gameStarted s') \<and>
        ((\<forall>rx ry color now cx cy. e \<noteq> Connect rx ry color now cx cy) \<longrightarrow>
           gameStarted s' = gameStarted s \<and> length (players s') \<le> length (players s)) \<and>
        (\<forall>rx ry color now cx cy. e = Connect rx ry color now cx cy \<longrightarrow>
           (gameStarted s' \<longleftrightarrow> gameStarted s \<or> 2 \<le> length (players s')))"
  proof (cases e)
    case (Connect rx ry color now cx cy)
    with assms have s': "s' = handleConnection rx ry color now cx cy s" by simp
    from handleConnection_fields(2)[of rx ry color now cx cy s] show ?thesis
      unfolding s' Connect by blast
  next
    case (Message playerId parsed)
    with assms have s': "s' = GameServer_handleMessage playerId parsed s" by simp
    from handleMessage_cases[of playerId parsed s]
    have "gameStarted s' = gameStarted s \<and> length (players s') = length (players s)"
      unfolding s' by (auto simp: length_map_set_known)
    with Message show ?thesis by simp
  next
    case (Close playerId now)
    with assms have s': "s' = handleClose playerId now s" by simp
    have "length (map_delete (players s) playerId) \<le> length (players s)"
      by (simp add: map_delete_def)
    with Close show ?thesis by (simp add: s' handleClose_fields)
  next
    case (Tick now)
    with assms have t: "tick now s = Inr s'" by simp
    from tick_fields(1,2)[OF t] Tick show ?thesis by simp
  next
    case (SpawnTrigger now rx ry)
    with assms have s': "s' = spawn_trigger now rx ry s" by simp
    from spawn_trigger_cases[of s now rx ry]
    have "gameStarted s' = gameStarted s \<and> players s' = players s"
      unfolding s' by (auto simp: spawnCoin_fields)
    with SpawnTrigger show ?thesis by simp
  next
    case TimerFires
    with assms have s': "s' = timer_fires s" by simp
    from TimerFires show ?thesis by (simp add: s' timer_fires_fields)
  qed
  then show "gameStarted s \<longrightarrow> gameStarted s'"
    and "(\<forall>rx ry color now cx cy. e \<noteq> Connect rx ry color now cx cy) \<longrightarrow>
           gameStarted s' = gameStarted s \<and> length (players s') \<le> length (players s)"
    and "\<forall>rx ry color now cx cy. e = Connect rx ry color now cx cy \<longrightarrow>
           (gameStarted s' \<longleftrightarrow> gameStarted s \<or> 2 \<le> length (players s'))"
    by blast+
qed

lemma step_started_iff:
  assumes "step e s = Inr s'" "\<not> gameStarted s \<longrightarrow> length (players s) < 2"
  shows "gameStarted s' \<longleftrightarrow> gameStarted s \<or> 2 \<le> length (players s')"
proof (cases "\<exists>rx ry color now cx cy. e = Connect rx ry color now cx cy")
  case True
  with step_started(3)[OF assms(1)] show ?thesis by blast
next
  case False
  with step_started(2)[OF assms(1)]
  have "gameStarted s' = gameStarted s" "length (players s') \<le> length (players s)" by blast+
  with assms(2) show ?thesis by auto
qed

lemma run_started:
  "run es s = Inr s' \<Longrightarrow> gameStarted s \<Longrightarrow> gameStarted s'"
proof (induction es arbitrary: s)
  case Nil
  then show ?case by simp
next
  case (Cons e es)
  from Cons.prems(1) obtain s1 where s1: "step e s = Inr s1" "run es s1 = Inr s'"
    by (rule run_Cons_Inr)
  from step_started(1)[OF s1(1)] Cons.prems(2) have "gameStarted s1" by simp
  with Cons.IH[OF s1(2)] show ?case .
qed

lemma trace_head: "trace es s \<noteq> [] \<and> hd (trace es s) = s"
  by (cases es) simp_all

lemma started_iff_trace:
  "run es s = Inr s' \<Longrightarrow> (\<not> gameStarted s \<longrightarrow> length (players s) < 2) \<Longrightarrow>
   gameStarted s' \<longleftrightarrow> gameStarted s \<or> (\<exists>t\<in>set (trace es s). 2 \<le> length (players t))"
proof (induction es arbitrary: s)
  case Nil
  then show ?case by auto
next
  case (Cons e es)
  from Cons.prems(1) obtain s1 where s1: "step e s = Inr s1" "run es s1 = Inr s'"
    by (rule run_Cons_Inr)
  note iff1 = step_started_iff[OF s1(1) Cons.prems(2)]
  then have pre: "\<not> gameStarted s1 \<longrightarrow> length (players s1) < 2" by auto
  note ih = Cons.IH[OF s1(2) pre]
  have tr: "trace (e # es) s = s # trace es s1" by (simp add: s1(1))
  have mem: "s1 \<in> set (trace es s1)" using trace_head[of es s1] by (metis list.set_sel(1))
  show ?case
  proof
    assume "gameStarted s'"
    with ih have "gameStarted s1 \<or> (\<exists>t\<in>set (trace es s1). 2 \<le> length (players t))" by simp
    then show "gameStarted s \<or> (\<exists>t\<in>set (trace (e # es) s). 2 \<le> length (players t))"
    proof
      assume "gameStarted s1"
      with iff1 have "gameStarted s \<or> 2 \<le> length (players s1)" by simp
      with mem show ?thesis unfolding tr by auto
    next
      assume "\<exists>t\<in>set (trace es s1). 2 \<le> length (players t)"
      then show ?thesis unfolding tr by auto
    qed
  next
    assume "gameStarted s \<or> (\<exists>t\<in>set (trace (e # es) s). 2 \<le> length (players t))"
    then have "gameStarted s \<or> 2 \<le> length (players s) \<or>
               (\<exists>t\<in>set (trace es s1). 2 \<le> length (players t))"
      unfolding tr by auto
    with Cons.prems(2) have "gameStarted s \<or> (\<exists>t\<in>set (trace es s1). 2 \<le> length (players t))"
      by auto
    then show "gameStarted s'"
    proof
      assume "gameStarted s"
      with iff1 have "gameStarted s1" by simp
      with ih show ?thesis by simp
    next
      assume "\<exists>t\<in>set (trace es s1). 2 \<le> length (players t)"
      with ih show ?thesis by simp
    qed
  qed
qed

section \<open>Players stay on the map\<close>

lemma in_bounds_iff:
  "in_bounds p \<longleftrightarrow> 0 \<le> p_x p \<and> p_x p \<le> 770 \<and> 0 \<le> p_y p \<and> p_y p \<le> 770"
  by (simp add: in_bounds_def MAP_SIZE_def PLAYER_SIZE_def)

lemma update_total:
  assumes "\<forall>q\<in>set (players s). readable (p_inputs (snd q))"
  shows "\<exists>s'. update s = Inr s'"
proof -
  from update_loop_total[OF assms, of "heap s (coins s)"] obtain ps' cs'
    where "update_loop (players s) (heap s (coins s)) = Inr (ps', cs')" by blast
  then show ?thesis by (simp add: update_def)
qed

lemma tick_total:
  assumes "\<forall>q\<in>set (players s). readable (p_inputs (snd q))"
  shows "\<exists>s'. tick now s = Inr s'"
proof -
  from update_total[OF assms] obtain s1 where "update s = Inr s1" by blast
  then show ?thesis by (simp add: tick_def)
qed

text \<open>
  C1. After a tick of the started game that completes, the players are the same as
  before, in the same order, and every one lies in \<open>[0, 770]\<close> on both axes, whatever
  the stored inputs and whatever the positions before the tick. The tick completes
  whenever every stored \<^verbatim>\<open>inputs\<close> value is readable. In every state the server reaches
  from its construction, with the random numbers in \<open>[0, 1)\<close>, every player lies in
  \<open>[0, 770]\<close> on both axes; this covers the ticks before the game has started, which
  leave the players where they were placed.
\<close>

theorem tick_keeps_players_on_map:
  "(gameStarted s \<and> tick now s = Inr s' \<longrightarrow>
      map fst (players s') = map fst (players s) \<and>
      (\<forall>q\<in>set (players s').
         0 \<le> p_x (snd q) \<and> p_x (snd q) \<le> 770 \<and> 0 \<le> p_y (snd q) \<and> p_y (snd q) \<le> 770))
   \<and> ((\<forall>q\<in>set (players s). readable (p_inputs (snd q))) \<longrightarrow> (\<exists>s1. tick now s = Inr s1))
   \<and> ((\<forall>e\<in>set es. wf_event e) \<and> run es constructor = Inr s2 \<longrightarrow>
      (\<forall>q\<in>set (players s2).
         0 \<le> p_x (snd q) \<and> p_x (snd q) \<le> 770 \<and> 0 \<le> p_y (snd q) \<and> p_y (snd q) \<le> 770))"
proof -
  have A: "map fst (players s') = map fst (players s) \<and>
      (\<forall>q\<in>set (players s').
         0 \<le> p_x (snd q) \<and> p_x (snd q) \<le> 770 \<and> 0 \<le> p_y (snd q) \<and> p_y (snd q) \<le> 770)"
    if g: "gameStarted s" and t: "tick now s = Inr s'"
  proof -
    from tick_cases[OF t] g obtain s1 where u: "update s = Inr s1"
      and s': "s' = broadcastGameState now s1" by blast
    have "map fst (players s1) = map fst (players s)"
      by (rule update_loop_ids[OF update_fields(1)[OF u]])
    then have ids: "map fst (players s') = map fst (players s)"
      by (simp add: s' broadcastGameState_eq)
    from tick_fields(5)[OF t] g have "on_map s'" by simp
    then have "\<forall>q\<in>set (players s').
         0 \<le> p_x (snd q) \<and> p_x (snd q) \<le> 770 \<and> 0 \<le> p_y (snd q) \<and> p_y (snd q) \<le> 770"
      by (simp add: on_map_def in_bounds_iff)
    with ids show ?thesis by simp
  qed
  have C: "\<forall>q\<in>set (players s2).
         0 \<le> p_x (snd q) \<and> p_x (snd q) \<le> 770 \<and> 0 \<le> p_y (snd q) \<and> p_y (snd q) \<le> 770"
    if w: "\<forall>e\<in>set es. wf_event e" and r: "run es constructor = Inr s2"
  proof -
    from on_map_run[OF on_map_constructor w r] show ?thesis
      by (simp add: on_map_def in_bounds_iff)
  qed
  from A tick_total[of s now] C show ?thesis by blast
qed

text \<open>
  C1 at a started game with player 1 at (769, 400) moving right and player 2 at (100, 1)
  moving up: after the tick they are at (770, 400) and (100, 0). And at the run that
  registers one player with random numbers 1/2 and 1/4: the player is placed at
  (385, 192.5).
\<close>

theorem tick_keeps_players_on_map_witness:
  "gameStarted edge_server
   \<and> (case tick 5000 edge_server of
        Inl e \<Rightarrow> False
      | Inr s' \<Rightarrow> map (\<lambda>q. (fst q, p_x (snd q), p_y (snd q))) (players s') =
                   [(1, 770, 400), (2, 100, 0)])
   \<and> wf_event (Connect (1/2) (1/4) ''hsl(0, 70%, 60%)'' 1000 (1/4) (1/4))
   \<and> (case run [Connect (1/2) (1/4) ''hsl(0, 70%, 60%)'' 1000 (1/4) (1/4)] constructor of
        Inl e \<Rightarrow> False
      | Inr s' \<Rightarrow> map (\<lambda>q. (fst q, p_x (snd q), p_y (snd q))) (players s') =
                   [(1, 385, 385 / 2)])"
proof -
  have r: "\<forall>q\<in>set (players edge_server). readable (p_inputs (snd q))"
    by (simp add: edge_server_def readable_def)
  from tick_keeps_players_on_map[of edge_server 5000 edge_server "[]" constructor] r
  obtain s1 where s1: "tick 5000 edge_server = Inr s1" by blast
  have g: "gameStarted edge_server" by (simp add: edge_server_def)
  from tick_keeps_players_on_map[of edge_server 5000 s1 "[]" constructor] g s1
  have "\<forall>q\<in>set (players s1).
         0 \<le> p_x (snd q) \<and> p_x (snd q) \<le> 770 \<and> 0 \<le> p_y (snd q) \<and> p_y (snd q) \<le> 770"
    by blast
  have e1: "map (\<lambda>q. (fst q, p_x (snd q), p_y (snd q))) (players s1) = [(1, 770, 400), (2, 100, 0)]"
    using s1
    by (auto simp: tick_def update_def edge_server_def displacement_def checkCoinCollisions_def
        move_def broadcastGameState_eq MAP_SIZE_def PLAYER_SIZE_def PLAYER_SPEED_def Let_def
        split: sum.splits)
  have e2: "run [Connect (1/2) (1/4) ''hsl(0, 70%, 60%)'' 1000 (1/4) (1/4)] constructor =
      Inr (handleConnection (1/2) (1/4) ''hsl(0, 70%, 60%)'' 1000 (1/4) (1/4) constructor)"
    by simp
  have e3: "map (\<lambda>q. (fst q, p_x (snd q), p_y (snd q)))
      (players (handleConnection (1/2) (1/4) ''hsl(0, 70%, 60%)'' 1000 (1/4) (1/4) constructor)) =
      [(1, 385, 385 / 2)]"
    by (simp add: handleConnection_fields(1) constructor_def map_set_def new_player_def
        MAP_SIZE_def PLAYER_SIZE_def)
  from g s1 e1 e2 e3 show ?thesis by (simp add: unit_random_def)
qed

section \<open>Diagonal movement\<close>

lemma magnitude_axis [simp]:
  "magnitude (0, d) = \<bar>d\<bar>" "magnitude (d, 0) = \<bar>d\<bar>"
  by (simp_all add: magnitude_def)

lemma magnitude_diagonal:
  assumes "\<bar>a\<bar> = v" "\<bar>b\<bar> = v"
  shows "magnitude (a / sqrt 2, b / sqrt 2) = v"
proof -
  have a2: "a\<^sup>2 = v\<^sup>2" using assms(1) by (metis power2_abs)
  have b2: "b\<^sup>2 = v\<^sup>2" using assms(2) by (metis power2_abs)
  have "(a / sqrt 2)\<^sup>2 + (b / sqrt 2)\<^sup>2 = v\<^sup>2"
    by (simp add: power_divide a2 b2)
  moreover have "0 \<le> v" using assms(1) by auto
  ultimately show ?thesis by (simp add: magnitude_def)
qed

lemma net_cases:
  "fwd \<noteq> back \<Longrightarrow> \<bar>net fwd back\<bar> = PLAYER_SPEED"
  "fwd = back \<Longrightarrow> net fwd back = 0"
  by (auto simp: net_def PLAYER_SPEED_def)

text \<open>
  C4 (amended). Let a flag be active when its value is truthy, for readable \<^verbatim>\<open>inputs\<close>.
  When exactly one of left/right and exactly one of up/down is active, each axis
  displacement is the signed speed divided by \<open>sqrt 2\<close>, and the length of the
  displacement is the speed constant. When exactly one of left/right is active and up
  and down are both active or both inactive (or the same with the axes exchanged), the
  displacement is the signed speed on that axis, zero on the other, and its length is
  exactly the speed constant. When both flags of an axis are active they cancel; with
  both axes cancelled or inactive the displacement is zero.
\<close>

theorem displacement_magnitude:
  assumes "readable inputs"
  shows "\<exists>dx dy. displacement inputs = Inr (dx, dy) \<and>
     (flag inputs ''left'' \<noteq> flag inputs ''right'' \<and> flag inputs ''up'' \<noteq> flag inputs ''down'' \<longrightarrow>
        dx = net (flag inputs ''right'') (flag inputs ''left'') / sqrt 2 \<and>
        dy = net (flag inputs ''down'') (flag inputs ''up'') / sqrt 2 \<and>
        magnitude (dx, dy) = PLAYER_SPEED) \<and>
     (flag inputs ''left'' \<noteq> flag inputs ''right'' \<and> flag inputs ''up'' = flag inputs ''down'' \<longrightarrow>
        dx = net (flag inputs ''right'') (flag inputs ''left'') \<and> dy = 0 \<and>
        magnitude (dx, dy) = PLAYER_SPEED) \<and>
     (flag inputs ''left'' = flag inputs ''right'' \<and> flag inputs ''up'' \<noteq> flag inputs ''down'' \<longrightarrow>
        dx = 0 \<and> dy = net (flag inputs ''down'') (flag inputs ''up'') \<and>
        magnitude (dx, dy) = PLAYER_SPEED) \<and>
     (flag inputs ''left'' = flag inputs ''right'' \<and> flag inputs ''up'' = flag inputs ''down'' \<longrightarrow>
        dx = 0 \<and> dy = 0)"
proof -
  let ?nx = "net (flag inputs ''right'') (flag inputs ''left'')"
  let ?ny = "net (flag inputs ''down'') (flag inputs ''up'')"
  have d: "displacement inputs =
      (if ?nx \<noteq> 0 \<and> ?ny \<noteq> 0 then Inr (?nx / sqrt 2, ?ny / sqrt 2) else Inr (?nx, ?ny))"
    by (simp add: displacement_flags[OF assms] net_def Let_def)
  consider (diag) "flag inputs ''left'' \<noteq> flag inputs ''right''" "flag inputs ''up'' \<noteq> flag inputs ''down''"
    | (xonly) "flag inputs ''left'' \<noteq> flag inputs ''right''" "flag inputs ''up'' = flag inputs ''down''"
    | (yonly) "flag inputs ''left'' = flag inputs ''right''" "flag inputs ''up'' \<noteq> flag inputs ''down''"
    | (none) "flag inputs ''left'' = flag inputs ''right''" "flag inputs ''up'' = flag inputs ''down''"
    by blast
  then show ?thesis
  proof cases
    case diag
    then have ax: "\<bar>?nx\<bar> = PLAYER_SPEED" and ay: "\<bar>?ny\<bar> = PLAYER_SPEED"
      by (simp_all add: net_cases(1))
    then have nz: "?nx \<noteq> 0" "?ny \<noteq> 0" by (auto simp: PLAYER_SPEED_def)
    from nz d have "displacement inputs = Inr (?nx / sqrt 2, ?ny / sqrt 2)" by simp
    with magnitude_diagonal[OF ax ay] diag show ?thesis by simp
  next
    case xonly
    then have ax: "\<bar>?nx\<bar> = PLAYER_SPEED" and ny: "?ny = 0"
      by (simp_all add: net_cases)
    from ny d have "displacement inputs = Inr (?nx, 0)" by simp
    with ax xonly show ?thesis by simp
  next
    case yonly
    then have ay: "\<bar>?ny\<bar> = PLAYER_SPEED" and nx: "?nx = 0"
      by (simp_all add: net_cases)
    from nx d have "displacement inputs = Inr (0, ?ny)" by simp
    with ay yonly show ?thesis by simp
  next
    case none
    then have "?nx = 0" "?ny = 0" by (simp_all add: net_cases)
    with d have "displacement inputs = Inr (0, 0)" by simp
    with none show ?thesis by simp
  qed
qed

text \<open>
  C4 (amended) at the inputs up and right: the displacement is
  \<open>(3 / sqrt 2, - 3 / sqrt 2)\<close>, of length 3.
\<close>

theorem displacement_magnitude_witness:
  "readable up_right
   \<and> flag up_right ''left'' \<noteq> flag up_right ''right''
   \<and> flag up_right ''up'' \<noteq> flag up_right ''down''
   \<and> displacement up_right = Inr (3 / sqrt 2, - 3 / sqrt 2)
   \<and> magnitude (3 / sqrt 2, - 3 / sqrt 2) = PLAYER_SPEED"
proof -
  have r: "readable up_right" by (simp add: up_right_def readable_def)
  have f: "flag up_right ''left'' \<noteq> flag up_right ''right''"
    "flag up_right ''up'' \<noteq> flag up_right ''down''"
    by (simp_all add: up_right_def flag_def)
  have d: "displacement up_right = Inr (3 / sqrt 2, - 3 / sqrt 2)"
    by (simp add: displacement_def up_right_def PLAYER_SPEED_def)
  from displacement_magnitude[OF r] f d
  have "magnitude (3 / sqrt 2, - 3 / sqrt 2) = PLAYER_SPEED" by auto
  with r f d show ?thesis by simp
qed

text \<open>
  C4 as stated fails. With all four flags active an x flag and a y flag are active, yet
  the displacement is (0, 0), of length 0 and not the speed constant: nothing is
  divided by \<open>sqrt 2\<close>. With left and right active and up and down inactive only one
  axis is active, yet the displacement is (0, 0) too.
\<close>

theorem opposing_flags_counterexample:
  "flag all_four ''left'' \<and> flag all_four ''up''
   \<and> displacement all_four = Inr (0, 0)
   \<and> magnitude (0, 0) \<noteq> PLAYER_SPEED
   \<and> flag left_right ''left'' \<and> flag left_right ''right''
   \<and> \<not> flag left_right ''up'' \<and> \<not> flag left_right ''down''
   \<and> displacement left_right = Inr (0, 0)"
  by (simp add: all_four_def left_right_def flag_def displacement_def PLAYER_SPEED_def)

section \<open>Idle until two players have joined\<close>

lemma fst_set_map_set_known:
  assumes "map_of m k = Some v0"
  shows "fst ` set (map_set m k v) = fst ` set m"
proof -
  from assms have "(k, v0) \<in> set m" by (rule map_of_SomeD)
  then have k: "k \<in> fst ` set m" by force
  then have "map fst (map_set m k v) = map fst m"
    by (auto simp: map_set_def)
  then have "set (map fst (map_set m k v)) = set (map fst m)" by simp
  then show ?thesis by simp
qed

lemma nextPlayerId_fields:
  "nextPlayerId (handleConnection rx ry color now cx cy s) = Suc (nextPlayerId s)"
  "nextPlayerId (GameServer_handleMessage playerId parsed s) = nextPlayerId s"
  "nextPlayerId (handleClose playerId now s) = nextPlayerId s"
  "nextPlayerId (spawn_trigger now rx ry s) = nextPlayerId s"
  "nextPlayerId (timer_fires s) = nextPlayerId s"
proof -
  show "nextPlayerId (handleConnection rx ry color now cx cy s) = Suc (nextPlayerId s)"
    by (simp add: handleConnection_def Let_def sendWithLatency_def spawnCoin_def)
  show "nextPlayerId (GameServer_handleMessage playerId parsed s) = nextPlayerId s"
    using handleMessage_cases[of playerId parsed s] by auto
  show "nextPlayerId (handleClose playerId now s) = nextPlayerId s"
    by (simp add: handleClose_def broadcastGameState_eq)
  show "nextPlayerId (spawn_trigger now rx ry s) = nextPlayerId s"
    by (simp add: spawn_trigger_def spawnCoin_def)
  show "nextPlayerId (timer_fires s) = nextPlayerId s"
    by (auto simp: timer_fires_def split: list.splits)
qed

lemma ids_fresh_step:
  assumes "ids_fresh s" "step e s = Inr s'"
  shows "ids_fresh s'"
proof (cases e)
  case (Connect rx ry color now cx cy)
  let ?s' = "handleConnection rx ry color now cx cy s"
  have "\<forall>q\<in>set (players ?s'). fst q < nextPlayerId ?s'"
  proof
    fix q assume "q \<in> set (players ?s')"
    with set_map_set[of "players s" "nextPlayerId s" "new_player (nextPlayerId s) rx ry color"]
    have "q = (nextPlayerId s, new_player (nextPlayerId s) rx ry color) \<or> q \<in> set (players s)"
      by (auto simp: handleConnection_fields(1))
    with assms(1) show "fst q < nextPlayerId ?s'"
      by (fastforce simp: ids_fresh_def nextPlayerId_fields(1) less_Suc_eq)
  qed
  with assms(2) Connect show ?thesis by (simp add: ids_fresh_def)
next
  case (Message playerId parsed)
  from handleMessage_cases[of playerId parsed s]
  have "fst ` set (players (GameServer_handleMessage playerId parsed s)) = fst ` set (players s)"
  proof
    assume "GameServer_handleMessage playerId parsed s = s"
    then show ?thesis by simp
  next
    assume "\<exists>player v. map_of (players s) playerId = Some player \<and>
      GameServer_handleMessage playerId parsed s =
        s\<lparr>players := map_set (players s) playerId (player\<lparr>p_inputs := v\<rparr>)\<rparr>"
    then obtain player v where m: "map_of (players s) playerId = Some player"
      and e: "GameServer_handleMessage playerId parsed s =
        s\<lparr>players := map_set (players s) playerId (player\<lparr>p_inputs := v\<rparr>)\<rparr>"
      by blast
    show ?thesis unfolding e using fst_set_map_set_known[OF m] by simp
  qed
  then have sub: "\<forall>q\<in>set (players (GameServer_handleMessage playerId parsed s)).
      fst q \<in> fst ` set (players s)" by blast
  have "\<forall>q\<in>set (players (GameServer_handleMessage playerId parsed s)). fst q < nextPlayerId s"
  proof
    fix q assume "q \<in> set (players (GameServer_handleMessage playerId parsed s))"
    with sub have "fst q \<in> fst ` set (players s)" by blast
    then obtain q0 where "q0 \<in> set (players s)" "fst q = fst q0" by blast
    with assms(1) show "fst q < nextPlayerId s" by (simp add: ids_fresh_def)
  qed
  then have "ids_fresh (GameServer_handleMessage playerId parsed s)"
    by (simp add: ids_fresh_def nextPlayerId_fields(2))
  with assms(2) Message show ?thesis by simp
next
  case (Close playerId now)
  have sub: "set (map_delete (players s) playerId) \<subseteq> set (players s)"
    by (auto simp: map_delete_def)
  have "\<forall>q\<in>set (map_delete (players s) playerId). fst q < nextPlayerId s"
  proof
    fix q assume "q \<in> set (map_delete (players s) playerId)"
    with sub have "q \<in> set (players s)" by blast
    with assms(1) show "fst q < nextPlayerId s" by (simp add: ids_fresh_def)
  qed
  then have "ids_fresh (handleClose playerId now s)"
    by (simp add: ids_fresh_def nextPlayerId_fields(3) handleClose_fields)
  with assms(2) Close show ?thesis by simp
next
  case (Tick now)
  with assms(2) have t: "tick now s = Inr s'" by simp
  from tick_cases[OF t] show ?thesis
  proof
    assume "\<not> gameStarted s \<and> s' = s"
    with assms(1) show ?thesis by simp
  next
    assume "gameStarted s \<and> (\<exists>s1. update s = Inr s1 \<and> s' = broadcastGameState now s1)"
    then obtain s1 where u: "update s = Inr s1" and s': "s' = broadcastGameState now s1" by blast
    have "map fst (players s1) = map fst (players s)"
      by (rule update_loop_ids[OF update_fields(1)[OF u]])
    then have "set (map fst (players s1)) = set (map fst (players s))" by simp
    then have "fst ` set (players s') = fst ` set (players s)"
      by (simp add: s' broadcastGameState_eq)
    moreover have "nextPlayerId s' = nextPlayerId s"
      by (simp add: s' broadcastGameState_eq update_fields(4)[OF u])
    ultimately show ?thesis using assms(1) unfolding ids_fresh_def
      by (metis (no_types, lifting) imageE imageI)
  qed
next
  case (SpawnTrigger now rx ry)
  with assms(2) have s': "s' = spawn_trigger now rx ry s" by simp
  from spawn_trigger_cases[of s now rx ry]
  have p: "players (spawn_trigger now rx ry s) = players s" by (auto simp: spawnCoin_fields)
  show ?thesis unfolding s' using assms(1)
    by (simp add: ids_fresh_def p nextPlayerId_fields(4))
next
  case TimerFires
  with assms(2) have s': "s' = timer_fires s" by simp
  show ?thesis unfolding s' using assms(1)
    by (simp add: ids_fresh_def nextPlayerId_fields(5) timer_fires_fields)
qed

lemma ids_fresh_run:
  "ids_fresh s \<Longrightarrow> run es s = Inr s' \<Longrightarrow> ids_fresh s'"
proof (induction es arbitrary: s)
  case Nil
  then show ?case by simp
next
  case (Cons e es)
  from Cons.prems(2) obtain s1 where s1: "step e s = Inr s1" "run es s1 = Inr s'"
    by (rule run_Cons_Inr)
  from ids_fresh_step[OF Cons.prems(1) s1(1)] s1(2) show ?case by (rule Cons.IH)
qed

lemma length_register:
  assumes "ids_fresh s"
  shows "length (players (handleConnection rx ry color now cx cy s)) = Suc (length (players s))"
proof -
  from assms have "nextPlayerId s \<notin> fst ` set (players s)"
    by (fastforce simp: ids_fresh_def)
  then show ?thesis by (simp add: handleConnection_fields(1) map_set_def)
qed

text \<open>
  C6. In every state \<open>s\<close> the server reaches from its construction: the game has started
  exactly when some state of the run so far had two or more players registered at once.
  While it has not started, a tick and a spawn trigger leave the state as it is, and
  there is no coin. A registration is always accepted: the new player is in the map
  under the id \<^verbatim>\<open>nextPlayerId\<close>. After a registration the game has started exactly when
  it had started before or a player was already registered; the registration that
  starts it spawns the first coin. Once started, the game is started after every further
  run, whatever its events (disconnections included). A spawn trigger of the started
  game appends one coin while fewer than five coins are live, and does nothing when
  five or more are; there are never more than five coins.
\<close>

theorem engine_idle_until_two_players:
  assumes "run es constructor = Inr s"
  shows "(gameStarted s \<longleftrightarrow> (\<exists>t\<in>set (trace es constructor). 2 \<le> length (players t)))
    \<and> (\<not> gameStarted s \<longrightarrow>
         tick now s = Inr s \<and> spawn_trigger now rx ry s = s \<and> the_coins s = [])
    \<and> map_of (players (handleConnection px py color now cx cy s)) (nextPlayerId s) =
         Some (new_player (nextPlayerId s) px py color)
    \<and> (gameStarted (handleConnection px py color now cx cy s) \<longleftrightarrow>
         gameStarted s \<or> 1 \<le> length (players s))
    \<and> (\<not> gameStarted s \<and> 1 \<le> length (players s) \<longrightarrow>
         the_coins (handleConnection px py color now cx cy s) =
           [\<lparr>c_id = now, c_x = cx * (MAP_SIZE - COIN_SIZE), c_y = cy * (MAP_SIZE - COIN_SIZE)\<rparr>])
    \<and> (gameStarted s \<longrightarrow> (\<forall>es' s'. run es' s = Inr s' \<longrightarrow> gameStarted s'))
    \<and> (gameStarted s \<and> length (the_coins s) < 5 \<longrightarrow>
         the_coins (spawn_trigger now rx ry s) =
           the_coins s @ [\<lparr>c_id = now, c_x = rx * (MAP_SIZE - COIN_SIZE),
                            c_y = ry * (MAP_SIZE - COIN_SIZE)\<rparr>])
    \<and> (gameStarted s \<and> 5 \<le> length (the_coins s) \<longrightarrow> spawn_trigger now rx ry s = s)
    \<and> length (the_coins s) \<le> 5"
proof -
  have c0: "\<not> gameStarted constructor \<longrightarrow> length (players constructor) < 2"
    "\<not> gameStarted constructor" by (simp_all add: constructor_def)
  from started_iff_trace[OF assms c0(1)] c0(2)
  have A: "gameStarted s \<longleftrightarrow> (\<exists>t\<in>set (trace es constructor). 2 \<le> length (players t))" by simp
  note inv = server_inv_run[OF server_inv_constructor assms]
  have fresh: "ids_fresh s"
    by (rule ids_fresh_run[OF _ assms]) (simp add: ids_fresh_def constructor_def)
  note len = length_register[OF fresh, of px py color now cx cy]
  have B: "\<not> gameStarted s \<longrightarrow>
         tick now s = Inr s \<and> spawn_trigger now rx ry s = s \<and> the_coins s = []"
    using inv by (simp add: tick_def spawn_trigger_def server_inv_def)
  have C: "map_of (players (handleConnection px py color now cx cy s)) (nextPlayerId s) =
         Some (new_player (nextPlayerId s) px py color)"
    by (simp add: handleConnection_fields(1) map_of_map_set)
  have D: "gameStarted (handleConnection px py color now cx cy s) \<longleftrightarrow>
         gameStarted s \<or> 1 \<le> length (players s)"
    using handleConnection_fields(2)[of px py color now cx cy s] len by auto
  have E: "\<not> gameStarted s \<and> 1 \<le> length (players s) \<longrightarrow>
         the_coins (handleConnection px py color now cx cy s) =
           [\<lparr>c_id = now, c_x = cx * (MAP_SIZE - COIN_SIZE), c_y = cy * (MAP_SIZE - COIN_SIZE)\<rparr>]"
    using handleConnection_fields(3)[of px py color now cx cy s] len inv
    by (auto simp: server_inv_def)
  have F: "gameStarted s \<longrightarrow> (\<forall>es' s'. run es' s = Inr s' \<longrightarrow> gameStarted s')"
    using run_started by blast
  have G: "gameStarted s \<and> length (the_coins s) < 5 \<longrightarrow>
         the_coins (spawn_trigger now rx ry s) =
           the_coins s @ [\<lparr>c_id = now, c_x = rx * (MAP_SIZE - COIN_SIZE),
                            c_y = ry * (MAP_SIZE - COIN_SIZE)\<rparr>]"
    using spawn_trigger_cases[of s now rx ry] by (auto simp: spawnCoin_fields)
  have H: "gameStarted s \<and> 5 \<le> length (the_coins s) \<longrightarrow> spawn_trigger now rx ry s = s"
    using spawn_trigger_cases[of s now rx ry] by auto
  have I: "length (the_coins s) \<le> 5" using inv by (simp add: server_inv_def)
  from A B C D E F G H I show ?thesis by blast
qed

lemma run_idle_server:
  "run [Connect (1/2) (1/2) ''hsl(0, 70%, 60%)'' 1000 (1/4) (1/4)] constructor = Inr idle_server"
  by (simp add: handleConnection_def constructor_def Let_def map_set_def sendWithLatency_def
      idle_server_def new_player_def)

text \<open>
  C6 at the run that registers one player: the game is idle, a tick and a spawn trigger
  change nothing, and the registration of a second player starts the game and spawns
  a coin at (195, 195).
\<close>

theorem engine_idle_until_two_players_witness:
  "run [Connect (1/2) (1/2) ''hsl(0, 70%, 60%)'' 1000 (1/4) (1/4)] constructor = Inr idle_server
   \<and> \<not> gameStarted idle_server
   \<and> tick 1500 idle_server = Inr idle_server
   \<and> spawn_trigger 1600 (1/2) (1/2) idle_server = idle_server
   \<and> gameStarted (handleConnection (1/10) (1/10) ''hsl(120, 70%, 60%)'' 2000 (1/4) (1/4) idle_server)
   \<and> the_coins (handleConnection (1/10) (1/10) ''hsl(120, 70%, 60%)'' 2000 (1/4) (1/4) idle_server)
       = [\<lparr>c_id = 2000, c_x = 195, c_y = 195\<rparr>]"
proof -
  have i: "\<not> gameStarted idle_server" "1 \<le> length (players idle_server)"
    by (simp_all add: idle_server_def)
  from engine_idle_until_two_players[OF run_idle_server, where now = 1500] i
  have a: "tick 1500 idle_server = Inr idle_server" by blast
  from engine_idle_until_two_players[OF run_idle_server, where now = 1600 and rx = "1/2"
      and ry = "1/2"] i
  have b: "spawn_trigger 1600 (1/2) (1/2) idle_server = idle_server" by blast
  from engine_idle_until_two_players[OF run_idle_server, where now = 2000 and px = "1/10"
      and py = "1/10" and color = "''hsl(120, 70%, 60%)''" and cx = "1/4" and cy = "1/4"] i
  have c: "gameStarted (handleConnection (1/10) (1/10) ''hsl(120, 70%, 60%)'' 2000 (1/4) (1/4) idle_server)"
    and d: "the_coins (handleConnection (1/10) (1/10) ''hsl(120, 70%, 60%)'' 2000 (1/4) (1/4) idle_server)
       = [\<lparr>c_id = 2000, c_x = (1/4) * (MAP_SIZE - COIN_SIZE), c_y = (1/4) * (MAP_SIZE - COIN_SIZE)\<rparr>]"
    by blast+
  from d have d': "the_coins (handleConnection (1/10) (1/10) ''hsl(120, 70%, 60%)'' 2000 (1/4) (1/4) idle_server)
       = [\<lparr>c_id = 2000, c_x = 195, c_y = 195\<rparr>]"
    by (simp add: MAP_SIZE_def COIN_SIZE_def)
  from run_idle_server i(1) a b c d' show ?thesis by blast
qed

section \<open>Input messages\<close>

lemma edge_server_ticks: "\<exists>s'. run [Tick 5000] edge_server = Inr s'"
proof -
  have "\<forall>q\<in>set (players edge_server). readable (p_inputs (snd q))"
    by (simp add: edge_server_def readable_def)
  from update_total[OF this] obtain s1 where "update edge_server = Inr s1" by blast
  then show ?thesis by (simp add: tick_def edge_server_def)
qed

text \<open>
  C7. \<^verbatim>\<open>handleMessage\<close> stores \<^verbatim>\<open>data.inputs\<close> as it was received, and the loop of
  \<^verbatim>\<open>update\<close> reads \<^verbatim>\<open>player.inputs.up\<close> outside any \<^verbatim>\<open>try\<close>. In a started game with
  players 1 and 2, the message \<^verbatim>\<open>{type: "input"}\<close> for player 2 is handled without an
  exception and leaves the stored intent of player 2 \<^verbatim>\<open>undefined\<close>; the update of the
  next tick throws a TypeError, and so does the tick. The same happens after the message
  \<^verbatim>\<open>{type: "input", inputs: null}\<close>. Without the message the tick completes. Nor is a
  malformed field coerced to false: after \<^verbatim>\<open>{type: "input", inputs: {up: 1}}\<close> the
  stored intent is \<^verbatim>\<open>{up: 1}\<close>, and the field counts as active, with displacement
  (0, -3).
\<close>

theorem missing_inputs_crash_tick:
  "map (\<lambda>q. (fst q, p_inputs (snd q)))
       (players (GameServer_handleMessage 2 (Some (JObj [(''type'', JStr ''input'')])) edge_server))
     = [(1, JObj [(''up'', JBool False), (''down'', JBool False),
                  (''left'', JBool False), (''right'', JBool True)]),
        (2, JUndefined)]
   \<and> update (GameServer_handleMessage 2 (Some (JObj [(''type'', JStr ''input'')])) edge_server)
       = Inl TypeError
   \<and> run [Message 2 (Some (JObj [(''type'', JStr ''input'')])), Tick 5000] edge_server
       = Inl TypeError
   \<and> run [Message 2 (Some (input_message JNull)), Tick 5000] edge_server = Inl TypeError
   \<and> (\<exists>s'. run [Tick 5000] edge_server = Inr s')
   \<and> p_inputs (snd (players (GameServer_handleMessage 2
        (Some (input_message (JObj [(''up'', JNum 1)]))) edge_server) ! 1))
     = JObj [(''up'', JNum 1)]
   \<and> displacement (JObj [(''up'', JNum 1)]) = Inr (0, - 3)"
proof -
  have a: "map (\<lambda>q. (fst q, p_inputs (snd q)))
       (players (GameServer_handleMessage 2 (Some (JObj [(''type'', JStr ''input'')])) edge_server))
     = [(1, JObj [(''up'', JBool False), (''down'', JBool False),
                  (''left'', JBool False), (''right'', JBool True)]),
        (2, JUndefined)]"
    by (simp add: GameServer_handleMessage_def handleMessage_try_def edge_server_def map_set_def)
  have b: "update (GameServer_handleMessage 2 (Some (JObj [(''type'', JStr ''input'')])) edge_server)
       = Inl TypeError"
    by (simp add: GameServer_handleMessage_def handleMessage_try_def edge_server_def map_set_def
      update_def displacement_def checkCoinCollisions_def move_def
      MAP_SIZE_def PLAYER_SIZE_def PLAYER_SPEED_def Let_def)
  have g: "gameStarted (GameServer_handleMessage 2 (Some (JObj [(''type'', JStr ''input'')])) edge_server)"
    by (simp add: GameServer_handleMessage_def handleMessage_try_def edge_server_def)
  have c: "run [Message 2 (Some (JObj [(''type'', JStr ''input'')])), Tick 5000] edge_server
       = Inl TypeError"
    using b g by (simp add: tick_def)
  have b': "update (GameServer_handleMessage 2 (Some (input_message JNull)) edge_server)
       = Inl TypeError"
    by (simp add: GameServer_handleMessage_def handleMessage_try_def edge_server_def map_set_def
      update_def displacement_def checkCoinCollisions_def move_def input_message_def
      MAP_SIZE_def PLAYER_SIZE_def PLAYER_SPEED_def Let_def)
  have g': "gameStarted (GameServer_handleMessage 2 (Some (input_message JNull)) edge_server)"
    by (simp add: GameServer_handleMessage_def handleMessage_try_def edge_server_def
      input_message_def)
  have d: "run [Message 2 (Some (input_message JNull)), Tick 5000] edge_server = Inl TypeError"
    using b' g' by (simp add: tick_def)
  have e: "p_inputs (snd (players (GameServer_handleMessage 2
        (Some (input_message (JObj [(''up'', JNum 1)]))) edge_server) ! 1))
     = JObj [(''up'', JNum 1)]"
    by (simp add: GameServer_handleMessage_def handleMessage_try_def edge_server_def map_set_def
      input_message_def)
  have f: "displacement (JObj [(''up'', JNum 1)]) = Inr (0, - 3)"
    by (simp add: displacement_def PLAYER_SPEED_def)
  show ?thesis by (intro conjI) (rule a b c d edge_server_ticks e f)+
qed

section \<open>Collisions and scores\<close>

lemma step_coins_subset:
  assumes "step e s = Inr s'"
  shows "set (the_coins s') \<subseteq> set (the_coins s) \<union> set (spawned e)"
proof (cases e)
  case (Connect rx ry color now cx cy)
  with assms have s': "s' = handleConnection rx ry color now cx cy s" by simp
  show ?thesis unfolding s' Connect by (auto simp: handleConnection_fields(3))
next
  case (Message playerId parsed)
  with assms have s': "s' = GameServer_handleMessage playerId parsed s" by simp
  from handleMessage_cases[of playerId parsed s]
  have "the_coins (GameServer_handleMessage playerId parsed s) = the_coins s"
    by (auto simp: the_coins_def)
  then show ?thesis unfolding s' by simp
next
  case (Close playerId now)
  with assms have s': "s' = handleClose playerId now s" by simp
  show ?thesis unfolding s' by (simp add: handleClose_fields)
next
  case (Tick now)
  with assms have t: "tick now s = Inr s'" by simp
  from tick_cases[OF t] show ?thesis
  proof
    assume "\<not> gameStarted s \<and> s' = s"
    then show ?thesis by simp
  next
    assume "gameStarted s \<and> (\<exists>s1. update s = Inr s1 \<and> s' = broadcastGameState now s1)"
    then obtain s1 where u: "update s = Inr s1" and s': "s' = broadcastGameState now s1" by blast
    have "set (the_coins s1) \<subseteq> set (the_coins s)"
      by (subst update_loop_coins[OF update_fields(1)[OF u]]) simp
    then show ?thesis by (auto simp: s' broadcastGameState_eq the_coins_def)
  qed
next
  case (SpawnTrigger now rx ry)
  with assms have s': "s' = spawn_trigger now rx ry s" by simp
  from spawn_trigger_cases[of s now rx ry] show ?thesis
    unfolding s' SpawnTrigger by (auto simp: spawnCoin_fields)
next
  case TimerFires
  with assms have s': "s' = timer_fires s" by simp
  show ?thesis unfolding s' by (simp add: timer_fires_fields)
qed

lemma run_coins_subset:
  "run es s = Inr s' \<Longrightarrow> set (the_coins s') \<subseteq> set (the_coins s) \<union> (\<Union>e\<in>set es. set (spawned e))"
proof (induction es arbitrary: s)
  case Nil
  then show ?case by simp
next
  case (Cons e es)
  from Cons.prems obtain s1 where s1: "step e s = Inr s1" "run es s1 = Inr s'"
    by (rule run_Cons_Inr)
  from Cons.IH[OF s1(2)] step_coins_subset[OF s1(1)] show ?case by auto
qed

lemma stringify_buildSnapshot:
  "stringify (heap s) (buildSnapshot now s) =
     State now (map (\<lambda>(_, p). serializePlayer p) (players s)) (the_coins s)"
  by (simp add: stringify_def buildSnapshot_def the_coins_def)

text \<open>
  C2. For an update that completes, with the players at their positions after the move
  of this tick: the players are the same and in the same order; the coins left are
  exactly the coins that overlap no player, in their order; the score of the player at
  index \<open>i\<close> grows by exactly the number of coins that overlap it and overlap no player
  before it in the processing order, so each collected coin adds 1 to one player, the
  first in the order that overlaps it; the sum of all scores grows by the number of
  coins removed; no score decreases. After any further run, a coin that the update
  removed is not among the coins a snapshot built then lists, unless an event of that
  run spawned a coin equal to it anew. In every state the server reaches from its
  construction, every score is non-negative.
\<close>

theorem collision_scores_exactly_once:
  assumes "update s = Inr s'"
  shows "map fst (players s') = map fst (players s)
   \<and> the_coins s' = filter (\<lambda>c. \<forall>q\<in>set (players s'). \<not> overlaps (snd q) c) (the_coins s)
   \<and> (\<forall>i<length (players s).
        p_score (snd (players s' ! i)) =
          p_score (snd (players s ! i)) +
          int (length (filter (\<lambda>c. overlaps (snd (players s' ! i)) c \<and>
                                   (\<forall>j<i. \<not> overlaps (snd (players s' ! j)) c)) (the_coins s))))
   \<and> (\<Sum>q\<leftarrow>players s'. p_score (snd q)) =
        (\<Sum>q\<leftarrow>players s. p_score (snd q)) + (int (length (the_coins s)) - int (length (the_coins s')))
   \<and> (\<forall>i<length (players s). p_score (snd (players s ! i)) \<le> p_score (snd (players s' ! i)))
   \<and> (\<forall>es s2 now c.
        run es s' = Inr s2 \<and> c \<notin> set (the_coins s') \<and> c \<notin> (\<Union>e\<in>set es. set (spawned e)) \<longrightarrow>
        stringify (heap s2) (buildSnapshot now s2) =
          State now (map (\<lambda>(_, p). serializePlayer p) (players s2)) (the_coins s2) \<and>
        c \<notin> set (the_coins s2))
   \<and> (\<forall>es t. run es constructor = Inr t \<longrightarrow> (\<forall>q\<in>set (players t). 0 \<le> p_score (snd q)))"
proof -
  note ul = update_fields(1)[OF assms]
  have A: "map fst (players s') = map fst (players s)" by (rule update_loop_ids[OF ul])
  have B: "the_coins s' = filter (\<lambda>c. \<forall>q\<in>set (players s'). \<not> overlaps (snd q) c) (the_coins s)"
    by (rule update_loop_coins[OF ul])
  have C: "\<forall>i<length (players s).
        p_score (snd (players s' ! i)) =
          p_score (snd (players s ! i)) +
          int (length (filter (\<lambda>c. overlaps (snd (players s' ! i)) c \<and>
                                   (\<forall>j<i. \<not> overlaps (snd (players s' ! j)) c)) (the_coins s)))"
    using update_loop_scores[OF ul] by blast
  have D: "(\<Sum>q\<leftarrow>players s'. p_score (snd q)) =
        (\<Sum>q\<leftarrow>players s. p_score (snd q)) + (int (length (the_coins s)) - int (length (the_coins s')))"
    using update_loop_total_score[OF ul] by simp
  have E: "\<forall>i<length (players s). p_score (snd (players s ! i)) \<le> p_score (snd (players s' ! i))"
    using update_loop_score_mono[OF ul] by blast
  have F0: "stringify (heap s2) (buildSnapshot now s2) =
          State now (map (\<lambda>(_, p). serializePlayer p) (players s2)) (the_coins s2) \<and>
        c \<notin> set (the_coins s2)"
    if "run es s' = Inr s2 \<and> c \<notin> set (the_coins s') \<and> c \<notin> (\<Union>e\<in>set es. set (spawned e))"
    for es s2 now c
  proof -
    from that have r: "run es s' = Inr s2" and c: "c \<notin> set (the_coins s')"
      "c \<notin> (\<Union>e\<in>set es. set (spawned e))" by simp_all
    from run_coins_subset[OF r] c have "c \<notin> set (the_coins s2)" by blast
    then show ?thesis by (simp add: stringify_buildSnapshot)
  qed
  have F: "\<forall>es s2 now c.
        run es s' = Inr s2 \<and> c \<notin> set (the_coins s') \<and> c \<notin> (\<Union>e\<in>set es. set (spawned e)) \<longrightarrow>
        stringify (heap s2) (buildSnapshot now s2) =
          State now (map (\<lambda>(_, p). serializePlayer p) (players s2)) (the_coins s2) \<and>
        c \<notin> set (the_coins s2)"
    using F0 by (intro allI impI)
  have G0: "\<forall>q\<in>set (players t). 0 \<le> p_score (snd q)" if "run es constructor = Inr t" for es t
    using server_inv_run[OF server_inv_constructor that] by (simp add: server_inv_def)
  have G: "\<forall>es t. run es constructor = Inr t \<longrightarrow> (\<forall>q\<in>set (players t). 0 \<le> p_score (snd q))"
    using G0 by (intro allI impI)
  show ?thesis by (intro conjI) (rule A B C D E F G)+
qed

lemma update_collision_server: "update collision_server = Inr collision_after"
  by (simp add: update_def collision_server_def collision_after_def displacement_def
      checkCoinCollisions_def overlaps_def move_def MAP_SIZE_def PLAYER_SIZE_def
      PLAYER_SPEED_def COIN_SIZE_def Let_def numeral_2_eq_2)

text \<open>
  C2 at a started game where player 1 moves right from (170, 190) to (173, 190), player 2
  stands at (200, 200), and the coin at (195, 195) overlaps both: player 1, processed
  first, scores (0 to 1), player 2 keeps its score, the coin is gone, and a snapshot
  built after a later spawn lists the other coin and the new one only.
\<close>

theorem collision_scores_exactly_once_witness:
  "update collision_server = Inr collision_after
   \<and> overlaps (snd (players collision_after ! 0)) \<lparr>c_id = 2000, c_x = 195, c_y = 195\<rparr>
   \<and> overlaps (snd (players collision_after ! 1)) \<lparr>c_id = 2000, c_x = 195, c_y = 195\<rparr>
   \<and> p_score (snd (players collision_server ! 0)) = 0
   \<and> p_score (snd (players collision_after ! 0)) = 1
   \<and> p_score (snd (players collision_after ! 1)) = p_score (snd (players collision_server ! 1))
   \<and> the_coins collision_after = [\<lparr>c_id = 5000, c_x = 600, c_y = 600\<rparr>]
   \<and> run [SpawnTrigger 6000 (1/2) (1/2)] collision_after
      = Inr (spawn_trigger 6000 (1/2) (1/2) collision_after)
   \<and> stringify (heap (spawn_trigger 6000 (1/2) (1/2) collision_after))
        (buildSnapshot 7000 (spawn_trigger 6000 (1/2) (1/2) collision_after))
      = State 7000 (map (\<lambda>(_, p). serializePlayer p) (players collision_after))
          [\<lparr>c_id = 5000, c_x = 600, c_y = 600\<rparr>, \<lparr>c_id = 6000, c_x = 390, c_y = 390\<rparr>]"
proof -
  let ?s2 = "spawn_trigger 6000 (1/2) (1/2) collision_after"
  note t = collision_scores_exactly_once[OF update_collision_server]
  have ov: "overlaps (snd (players collision_after ! 0)) \<lparr>c_id = 2000, c_x = 195, c_y = 195\<rparr>"
    "overlaps (snd (players collision_after ! 1)) \<lparr>c_id = 2000, c_x = 195, c_y = 195\<rparr>"
    by (simp_all add: collision_after_def overlaps_def PLAYER_SIZE_def COIN_SIZE_def)
  have sc: "p_score (snd (players collision_server ! 0)) = 0"
    "p_score (snd (players collision_after ! 0)) = 1"
    "p_score (snd (players collision_after ! 1)) = p_score (snd (players collision_server ! 1))"
    by (simp_all add: collision_after_def collision_server_def)
  have cs: "the_coins collision_after = [\<lparr>c_id = 5000, c_x = 600, c_y = 600\<rparr>]"
    by (simp add: collision_after_def the_coins_def)
  have r: "run [SpawnTrigger 6000 (1/2) (1/2)] collision_after = Inr ?s2"
    by simp
  have c1: "\<lparr>c_id = 2000, c_x = 195, c_y = 195\<rparr> \<notin> set (the_coins collision_after)"
    by (simp add: cs)
  have c2: "\<lparr>c_id = 2000, c_x = 195, c_y = 195\<rparr>
      \<notin> (\<Union>e\<in>set [SpawnTrigger 6000 (1/2) (1/2)]. set (spawned e))"
    by simp
  from t r c1 c2
  have "stringify (heap ?s2) (buildSnapshot 7000 ?s2)
      = State 7000 (map (\<lambda>(_, p). serializePlayer p) (players ?s2)) (the_coins ?s2)"
    by blast
  moreover have "gameStarted collision_after \<and> length (the_coins collision_after) < 5"
    by (simp add: cs) (simp add: collision_after_def)
  with spawn_trigger_cases[of collision_after 6000 "1/2" "1/2"]
  have "?s2 = spawnCoin 6000 (1/2) (1/2) collision_after" by simp
  then have "players ?s2 = players collision_after"
    "the_coins ?s2 = [\<lparr>c_id = 5000, c_x = 600, c_y = 600\<rparr>, \<lparr>c_id = 6000, c_x = 390, c_y = 390\<rparr>]"
    by (simp_all add: spawnCoin_fields cs MAP_SIZE_def COIN_SIZE_def)
  ultimately have sn: "stringify (heap ?s2) (buildSnapshot 7000 ?s2)
      = State 7000 (map (\<lambda>(_, p). serializePlayer p) (players collision_after))
          [\<lparr>c_id = 5000, c_x = 600, c_y = 600\<rparr>, \<lparr>c_id = 6000, c_x = 390, c_y = 390\<rparr>]"
    by simp
  from update_collision_server ov sc cs r sn show ?thesis by (intro conjI)
qed

section \<open>Delivery of a snapshot after the latency\<close>

lemma run_append:
  "run (es @ es') s = (case run es s of Inl e \<Rightarrow> Inl e | Inr s' \<Rightarrow> run es' s')"
  by (induction es arbitrary: s) (auto split: sum.splits)

lemma run_started_server: "run (take 4 stale_run) constructor = Inr started_server"
  by (simp add: stale_run_def handleConnection_def constructor_def Let_def map_set_def
      sendWithLatency_def timer_fires_def stringify_def spawnCoin_def serializePlayer_def
      new_player_def started_server_def view_one_def view_two_def MAP_SIZE_def PLAYER_SIZE_def
      COIN_SIZE_def)

lemma update_started_server: "update started_server = Inr started_server"
  by (simp add: update_def started_server_def displacement_def checkCoinCollisions_def
      overlaps_def move_def new_player_def MAP_SIZE_def PLAYER_SIZE_def PLAYER_SPEED_def
      COIN_SIZE_def Let_def)

text \<open>
  C3. The snapshot a broadcast builds holds copies of the players and the timestamp, but
  its \<^verbatim>\<open>coins\<close> is the server's own array, and \<^verbatim>\<open>JSON.stringify\<close> runs when the timer
  fires. In this run two players join, the tick at time 3000 builds a snapshot while the
  world holds one coin, a spawn at time 3100 adds a second coin, and the delivery to
  player 1 then carries both coins: the delivered coin sequence is not the one of the
  moment the snapshot was built.
\<close>

theorem stale_snapshot_delivered:
  "(case run (take 5 stale_run) constructor of
      Inl e \<Rightarrow> False
    | Inr s \<Rightarrow> the_coins s = [\<lparr>c_id = 2000, c_x = 195, c_y = 195\<rparr>] \<and>
               timers s = [(1, StateData 3000 [view_one, view_two] (coins s)),
                           (2, StateData 3000 [view_one, view_two] (coins s))])
   \<and> (case run stale_run constructor of
      Inl e \<Rightarrow> False
    | Inr s \<Rightarrow> last (sent s) =
        (1, State 3000 [view_one, view_two]
              [\<lparr>c_id = 2000, c_x = 195, c_y = 195\<rparr>, \<lparr>c_id = 3100, c_x = 585, c_y = 585\<rparr>]))"
proof -
  have t5: "take 5 stale_run = take 4 stale_run @ [Tick 3000]"
    and t7: "stale_run = take 4 stale_run @ [Tick 3000, SpawnTrigger 3100 (3/4) (3/4), TimerFires]"
    by (simp_all add: stale_run_def)
  have g: "gameStarted started_server" by (simp add: started_server_def)
  have tk: "tick 3000 started_server = Inr (broadcastGameState 3000 started_server)"
    by (simp add: tick_def g update_started_server)
  have b: "broadcastGameState 3000 started_server =
      started_server\<lparr>timers := [(1, StateData 3000 [view_one, view_two] 0),
                                  (2, StateData 3000 [view_one, view_two] 0)]\<rparr>"
    by (simp add: broadcastGameState_eq buildSnapshot_def started_server_def new_player_def
        serializePlayer_def view_one_def view_two_def MAP_SIZE_def PLAYER_SIZE_def)
  have r5: "run (take 5 stale_run) constructor = Inr (broadcastGameState 3000 started_server)"
    unfolding t5 by (simp add: run_append run_started_server tk)
  have A: "the_coins (broadcastGameState 3000 started_server) = [\<lparr>c_id = 2000, c_x = 195, c_y = 195\<rparr>]"
    "timers (broadcastGameState 3000 started_server) =
       [(1, StateData 3000 [view_one, view_two] (coins (broadcastGameState 3000 started_server))),
        (2, StateData 3000 [view_one, view_two] (coins (broadcastGameState 3000 started_server)))]"
    unfolding b by (simp_all add: started_server_def the_coins_def)
  let ?s7 = "timer_fires (spawn_trigger 3100 (3/4) (3/4) (broadcastGameState 3000 started_server))"
  have r7: "run stale_run constructor = Inr ?s7"
    by (subst t7) (simp add: run_append run_started_server tk)
  have B: "last (sent ?s7) =
        (1, State 3000 [view_one, view_two]
              [\<lparr>c_id = 2000, c_x = 195, c_y = 195\<rparr>, \<lparr>c_id = 3100, c_x = 585, c_y = 585\<rparr>])"
    unfolding b
    by (simp add: spawn_trigger_def spawnCoin_def timer_fires_def stringify_def started_server_def
        MAP_SIZE_def COIN_SIZE_def)
  from A B show ?thesis by (simp add: r5 r7)
qed

end
